theory Spec2Isabelle
  imports Main
begin

section \<open>Values\<close>

text \<open>
  A JavaScript value as the engine meets it: the documents, filters and update
  specifications of the database are JSON-like trees. Numbers are modelled by \<open>int\<close>
  (exact for the integer-valued doubles; fractions, NaN and the infinities are outside
  the model), strings by \<open>string\<close> (read as ASCII). An object is the list of its own
  enumerable properties in enumeration order, with distinct keys; a property may hold
  \<open>Undefined\<close>. Property names that name built-in members of the prototypes
  (\<open>constructor\<close>, \<open>toString\<close>, \<open>push\<close>, ...) are outside the model.
\<close>

datatype jsval =
    Undefined
  | Null
  | Bool bool
  | Num int
  | Str string
  | Arr "jsval list"
  | Obj "(string \<times> jsval) list"

datatype jserror = TypeError | Error string

type_synonym 'a res = "jserror + 'a"

text \<open>Truthiness (\<open>if (v)\<close>, \<open>!v\<close>, \<open>a || b\<close>).\<close>

fun truthy :: "jsval \<Rightarrow> bool" where
  "truthy Undefined = False"
| "truthy Null = False"
| "truthy (Bool b) = b"
| "truthy (Num n) = (n \<noteq> 0)"
| "truthy (Str s) = (s \<noteq> [])"
| "truthy (Arr _) = True"
| "truthy (Obj _) = True"

text \<open>\<open>typeof v === 'object'\<close>: true of objects, arrays and \<open>null\<close>.\<close>

fun typeof_object :: "jsval \<Rightarrow> bool" where
  "typeof_object Null = True"
| "typeof_object (Arr _) = True"
| "typeof_object (Obj _) = True"
| "typeof_object _ = False"

text \<open>
  Strict equality \<open>===\<close> (and the SameValueZero of \<open>Array.prototype.includes\<close> and of
  \<open>Map\<close> keys, which differs from it on NaN only). Primitives compare by value.
  Objects and arrays compare by reference: the values that meet in a comparison come
  one from a stored document and one from a request (a filter, an update), which are
  different objects, so two compound values are never equal.
\<close>

fun strict_eq :: "jsval \<Rightarrow> jsval \<Rightarrow> bool" where
  "strict_eq (Arr _) _ = False"
| "strict_eq (Obj _) _ = False"
| "strict_eq a b = (a = b)"

definition js_includes :: "jsval list \<Rightarrow> jsval \<Rightarrow> bool" where
  "js_includes xs v = list_ex (\<lambda>x. strict_eq x v) xs"

subsection \<open>Numbers and strings\<close>

definition digit_char :: "nat \<Rightarrow> char" where
  "digit_char n = ''0123456789'' ! n"

fun nat_to_dec :: "nat \<Rightarrow> string" where
  "nat_to_dec n = (if n < 10 then [digit_char n] else nat_to_dec (n div 10) @ [digit_char (n mod 10)])"

declare nat_to_dec.simps [simp del]

definition int_to_dec :: "int \<Rightarrow> string" where
  "int_to_dec i = (if i < 0 then CHR ''-'' # nat_to_dec (nat (- i)) else nat_to_dec (nat i))"

definition is_digit :: "char \<Rightarrow> bool" where
  "is_digit c = (c \<in> set ''0123456789'')"

definition digit_val :: "char \<Rightarrow> nat" where
  "digit_val c = length (takeWhile (\<lambda>d. d \<noteq> c) ''0123456789'')"

definition digits_val :: "string \<Rightarrow> nat" where
  "digits_val ds = foldl (\<lambda>a c. 10 * a + digit_val c) 0 ds"

definition is_ws :: "char \<Rightarrow> bool" where
  "is_ws c = (c \<in> set [CHR 0x09, CHR 0x0A, CHR 0x0B, CHR 0x0C, CHR 0x0D, CHR 0x20])"

text \<open>
  \<open>parseInt(s, 10)\<close>: leading white space is skipped, one sign is read, then the longest
  prefix of decimal digits; \<open>None\<close> is NaN (no digit).
\<close>

definition parseInt :: "string \<Rightarrow> int option" where
  "parseInt s =
     (let t = dropWhile is_ws s;
          neg = (t \<noteq> [] \<and> hd t = CHR ''-'');
          u = (if t \<noteq> [] \<and> (hd t = CHR ''-'' \<or> hd t = CHR ''+'') then tl t else t);
          ds = takeWhile is_digit u
      in if ds = [] then None
         else Some (if neg then - int (digits_val ds) else int (digits_val ds)))"

text \<open>\<open>s.split('.')\<close> and \<open>parts.join('.')\<close>.\<close>

fun split_dot :: "string \<Rightarrow> string list" where
  "split_dot [] = [[]]"
| "split_dot (c # cs) =
     (if c = CHR ''.'' then [] # split_dot cs
      else (case split_dot cs of [] \<Rightarrow> [[c]] | p # ps \<Rightarrow> (c # p) # ps))"

fun join_dot :: "string list \<Rightarrow> string" where
  "join_dot [] = []"
| "join_dot [p] = p"
| "join_dot (p # q # ps) = p @ CHR ''.'' # join_dot (q # ps)"

fun join_with :: "string \<Rightarrow> string list \<Rightarrow> string" where
  "join_with sep [] = []"
| "join_with sep [p] = p"
| "join_with sep (p # q # ps) = p @ sep @ join_with sep (q # ps)"

text \<open>\<open>String(v)\<close>.\<close>

fun to_string :: "jsval \<Rightarrow> string" where
  "to_string Undefined = ''undefined''"
| "to_string Null = ''null''"
| "to_string (Bool b) = (if b then ''true'' else ''false'')"
| "to_string (Num n) = int_to_dec n"
| "to_string (Str s) = s"
| "to_string (Arr xs) =
     join_with '','' (map (\<lambda>x. if x = Undefined \<or> x = Null then [] else to_string x) xs)"
| "to_string (Obj _) = ''[object Object]''"

subsection \<open>Properties\<close>

text \<open>
  An array index is the canonical decimal form of a natural number; \<open>obj[k]\<close> on an
  array or a string reads an element or \<open>length\<close>, on \<open>null\<close> and \<open>undefined\<close> it throws.
\<close>

definition array_index :: "string \<Rightarrow> nat option" where
  "array_index k =
     (if k \<noteq> [] \<and> list_all is_digit k \<and> (k = ''0'' \<or> hd k \<noteq> CHR ''0'')
      then Some (digits_val k) else None)"

definition lookup :: "(string \<times> jsval) list \<Rightarrow> string \<Rightarrow> jsval" where
  "lookup kvs k = (case map_of kvs k of Some v \<Rightarrow> v | None \<Rightarrow> Undefined)"

fun get_prop :: "jsval \<Rightarrow> string \<Rightarrow> jsval res" where
  "get_prop Undefined k = Inl TypeError"
| "get_prop Null k = Inl TypeError"
| "get_prop (Obj kvs) k = Inr (lookup kvs k)"
| "get_prop (Arr xs) k =
     Inr (case array_index k of
            Some i \<Rightarrow> if i < length xs then xs ! i else Undefined
          | None \<Rightarrow> if k = ''length'' then Num (int (length xs)) else Undefined)"
| "get_prop (Str s) k =
     Inr (case array_index k of
            Some i \<Rightarrow> if i < length s then Str [s ! i] else Undefined
          | None \<Rightarrow> if k = ''length'' then Num (int (length s)) else Undefined)"
| "get_prop _ k = Inr Undefined"

section \<open>Path resolver\<close>

text \<open>
  \<open>QueryEngine.getValue(item, path)\<close>. The loop over the segments is \<open>walk\<close>; at an
  array whose segment is no index in bounds, the remaining segments are joined again
  and resolved in every element, in order; an element whose resolution throws makes the
  whole resolution throw.
\<close>

definition in_bounds_index :: "string \<Rightarrow> nat \<Rightarrow> nat option" where
  "in_bounds_index p n =
     (case parseInt p of
        Some idx \<Rightarrow> if 0 \<le> idx \<and> idx < int n then Some (nat idx) else None
      | None \<Rightarrow> None)"

fun flatten1 :: "jsval \<Rightarrow> jsval list" where
  "flatten1 Undefined = []"
| "flatten1 (Arr ys) = ys"
| "flatten1 v = [v]"

fun collect :: "jsval res list \<Rightarrow> jsval list res" where
  "collect [] = Inr []"
| "collect (Inl e # _) = Inl e"
| "collect (Inr v # rs) =
     (case collect rs of Inl e \<Rightarrow> Inl e | Inr acc \<Rightarrow> Inr (flatten1 v @ acc))"

lemma size_elem_lt: "x \<in> set xs \<Longrightarrow> size x < Suc (size_list size xs)"
  by (induction xs) auto

lemma size_lookup_lt: "map_of kvs k = Some v \<Longrightarrow> size v < Suc (size_list (size_prod (\<lambda>_. 0) size) kvs)"
  by (induction kvs) (auto split: if_splits)

lemma size_nth_lt: "i < length xs \<Longrightarrow> size (xs ! i) < Suc (size_list size xs)"
  by (rule size_elem_lt) simp

lemma in_bounds_index_lt: "in_bounds_index p n = Some i \<Longrightarrow> i < n"
  by (auto simp: in_bounds_index_def split: option.splits if_splits)

function getValue :: "jsval \<Rightarrow> string \<Rightarrow> jsval res"
  and walk :: "jsval \<Rightarrow> string list \<Rightarrow> jsval res" where
  "getValue item path =
     (if CHR ''.'' \<notin> set path then get_prop item path else walk item (split_dot path))"
| "walk cur [] = Inr cur"
| "walk (Arr xs) (p # ps) =
     (case in_bounds_index p (length xs) of
        Some i \<Rightarrow> walk (xs ! i) ps
      | None \<Rightarrow>
          (case collect (map (\<lambda>el. getValue el (join_dot (p # ps))) xs) of
             Inl e \<Rightarrow> Inl e
           | Inr results \<Rightarrow> Inr (if results \<noteq> [] then Arr results else Undefined)))"
| "walk (Obj kvs) (p # ps) = walk (lookup kvs p) ps"
| "walk Undefined (p # ps) = Inr Undefined"
| "walk Null (p # ps) = Inr Undefined"
| "walk (Bool b) (p # ps) = Inr Undefined"
| "walk (Num n) (p # ps) = Inr Undefined"
| "walk (Str s) (p # ps) = Inr Undefined"
  by pat_completeness auto
termination
proof (relation "measure (\<lambda>x. case x of Inl (item, path) \<Rightarrow> 2 * size item + 1
                                       | Inr (cur, ps) \<Rightarrow> 2 * size cur)", goal_cases)
  case 1
  show ?case by simp
next
  case (2 item path)
  show ?case by simp
next
  case (3 xs p ps el)
  from size_elem_lt [OF 3(2)] show ?case by simp
next
  case (4 xs p ps i)
  from 4 have "i < length xs" by (rule in_bounds_index_lt)
  from size_nth_lt [OF this] show ?case by simp
next
  case (5 kvs p ps)
  show ?case
  proof (cases "map_of kvs p")
    case None
    then show ?thesis by (simp add: lookup_def)
  next
    case (Some v)
    from size_lookup_lt [OF Some] Some show ?thesis by (simp add: lookup_def)
  qed
qed

declare getValue.simps [simp del]

section \<open>Filter evaluator\<close>

text \<open>
  The operators of the language whose results depend on its coercion rules or on its
  regular-expression engine are not modelled; they are parameters, and every theorem
  holds whatever they compute. \<open>regex_test B pattern flags actual\<close> is the outcome of
  the \<open>try\<close> block of \<open>$regex\<close>: \<open>Some b\<close> when the block reaches the end of the test
  with result \<open>b\<close> (for an array, some element matches), \<open>None\<close> when it throws.
  \<open>rem_coerced B n d\<close> is \<open>n % d\<close> for a divisor that is no number (\<open>None\<close> is NaN).
\<close>

record builtins =
  js_gt :: "jsval \<Rightarrow> jsval \<Rightarrow> bool"
  js_ge :: "jsval \<Rightarrow> jsval \<Rightarrow> bool"
  js_lt :: "jsval \<Rightarrow> jsval \<Rightarrow> bool"
  js_le :: "jsval \<Rightarrow> jsval \<Rightarrow> bool"
  regex_test :: "jsval \<Rightarrow> jsval \<Rightarrow> jsval \<Rightarrow> bool option"
  rem_coerced :: "int \<Rightarrow> jsval \<Rightarrow> int option"
  add_coerced :: "jsval \<Rightarrow> jsval \<Rightarrow> jsval"

text \<open>\<open>n % d\<close>: the remainder has the sign of the dividend; a zero divisor gives NaN.\<close>

definition js_rem :: "builtins \<Rightarrow> int \<Rightarrow> jsval \<Rightarrow> int option" where
  "js_rem B n d =
     (case d of
        Num m \<Rightarrow> if m = 0 then None else Some (sgn n * (\<bar>n\<bar> mod \<bar>m\<bar>))
      | _ \<Rightarrow> rem_coerced B n d)"

text \<open>\<open>Object.entries(v)\<close> (and \<open>Object.keys\<close>, \<open>for ... in\<close>): own enumerable properties.\<close>

definition index_keys :: "nat \<Rightarrow> string list" where
  "index_keys n = map nat_to_dec [0..<n]"

fun entries :: "jsval \<Rightarrow> (string \<times> jsval) list res" where
  "entries Undefined = Inl TypeError"
| "entries Null = Inl TypeError"
| "entries (Obj kvs) = Inr kvs"
| "entries (Arr xs) = Inr (zip (index_keys (length xs)) xs)"
| "entries (Str s) = Inr (zip (index_keys (length s)) (map (\<lambda>c. Str [c]) s))"
| "entries _ = Inr []"

text \<open>\<open>v[k]\<close> for a value known not to be \<open>null\<close> or \<open>undefined\<close>.\<close>

definition prop_of :: "jsval \<Rightarrow> string \<Rightarrow> jsval" where
  "prop_of v k = (case get_prop v k of Inr x \<Rightarrow> x | Inl _ \<Rightarrow> Undefined)"

text \<open>
  A loop whose body may \<open>continue\<close>, \<open>return\<close> a value or throw; \<open>after\<close> is what the
  function returns once the loop has run through.
\<close>

datatype 'a step = Continue | Return 'a

fun for_loop :: "('a \<Rightarrow> 'b step res) \<Rightarrow> 'a list \<Rightarrow> 'b \<Rightarrow> 'b res" where
  "for_loop body [] after = Inr after"
| "for_loop body (x # xs) after =
     (case body x of
        Inl e \<Rightarrow> Inl e
      | Inr (Return b) \<Rightarrow> Inr b
      | Inr Continue \<Rightarrow> for_loop body xs after)"

text \<open>\<open>xs.every(f)\<close> and \<open>xs.some(f)\<close> with a callback that may throw.\<close>

definition every_r :: "('a \<Rightarrow> bool res) \<Rightarrow> 'a list \<Rightarrow> bool res" where
  "every_r f xs =
     for_loop (\<lambda>x. case f x of Inl e \<Rightarrow> Inl e
                     | Inr b \<Rightarrow> Inr (if b then Continue else Return False)) xs True"

definition some_r :: "('a \<Rightarrow> bool res) \<Rightarrow> 'a list \<Rightarrow> bool res" where
  "some_r f xs =
     for_loop (\<lambda>x. case f x of Inl e \<Rightarrow> Inl e
                     | Inr b \<Rightarrow> Inr (if b then Return True else Continue)) xs False"

definition not_r :: "bool res \<Rightarrow> bool res" where
  "not_r r = (case r of Inl e \<Rightarrow> Inl e | Inr b \<Rightarrow> Inr (\<not> b))"

lemma for_loop_cong [fundef_cong]:
  "xs = ys \<Longrightarrow> (\<And>x. x \<in> set ys \<Longrightarrow> f x = g x) \<Longrightarrow> a = b
     \<Longrightarrow> for_loop f xs a = for_loop g ys b"
  by (induction ys arbitrary: xs) (auto split: sum.splits step.splits)

lemma every_r_cong [fundef_cong]:
  "xs = ys \<Longrightarrow> (\<And>x. x \<in> set ys \<Longrightarrow> f x = g x) \<Longrightarrow> every_r f xs = every_r g ys"
  unfolding every_r_def by (rule for_loop_cong) auto

lemma some_r_cong [fundef_cong]:
  "xs = ys \<Longrightarrow> (\<And>x. x \<in> set ys \<Longrightarrow> f x = g x) \<Longrightarrow> some_r f xs = some_r g ys"
  unfolding some_r_def by (rule for_loop_cong) auto

text \<open>\<open>s.includes(t)\<close> on strings.\<close>

fun str_contains :: "string \<Rightarrow> string \<Rightarrow> bool" where
  "str_contains [] t = (t = [])"
| "str_contains (c # cs) t = (take (length t) (c # cs) = t \<or> str_contains cs t)"

text \<open>
  \<open>expected.includes(v)\<close>, for whatever \<open>expected\<close> the filter holds: an array searches
  its elements, a string searches \<open>String(v)\<close>, anything else has no such method.
\<close>

fun expected_includes :: "jsval \<Rightarrow> jsval \<Rightarrow> bool res" where
  "expected_includes (Arr es) v = Inr (js_includes es v)"
| "expected_includes (Str s) v = Inr (str_contains s (to_string v))"
| "expected_includes _ v = Inl TypeError"

definition stop_unless :: "bool \<Rightarrow> bool step" where
  "stop_unless ok = (if ok then Continue else Return False)"

definition stop_unless_r :: "bool res \<Rightarrow> bool step res" where
  "stop_unless_r r = (case r of Inl e \<Rightarrow> Inl e | Inr ok \<Rightarrow> Inr (stop_unless ok))"

text \<open>
  The body of the loop of \<open>matchesOperators\<close> when \<open>actual\<close> is \<open>undefined\<close>, and its
  \<open>switch\<close> otherwise (all cases but \<open>$not\<close>, which recurses).
\<close>

definition operator_absent :: "string \<Rightarrow> jsval \<Rightarrow> bool step" where
  "operator_absent op expected =
     (if op = ''$exists'' then
        (if expected = Bool True then Return False
         else if expected = Bool False then Return True
         else Continue)
      else if op = ''$ne'' then Return True
      else Return False)"

definition mod_test :: "builtins \<Rightarrow> jsval \<Rightarrow> jsval \<Rightarrow> jsval \<Rightarrow> bool" where
  "mod_test B d r v =
     (case v of
        Num n \<Rightarrow> (case js_rem B n d of None \<Rightarrow> False | Some m \<Rightarrow> r = Num m)
      | _ \<Rightarrow> False)"

definition operator_present ::
  "builtins \<Rightarrow> jsval \<Rightarrow> jsval \<Rightarrow> string \<Rightarrow> jsval \<Rightarrow> bool step res" where
  "operator_present B ops actual op expected =
     (if op = ''$eq'' then
        Inr (case actual of Arr xs \<Rightarrow> stop_unless (js_includes xs expected)
             | _ \<Rightarrow> stop_unless (strict_eq actual expected))
      else if op = ''$ne'' then
        Inr (case actual of Arr xs \<Rightarrow> stop_unless (\<not> js_includes xs expected)
             | _ \<Rightarrow> stop_unless (\<not> strict_eq actual expected))
      else if op = ''$gt'' then
        Inr (case actual of Arr xs \<Rightarrow> stop_unless (list_ex (\<lambda>v. js_gt B v expected) xs)
             | _ \<Rightarrow> stop_unless (js_gt B actual expected))
      else if op = ''$gte'' then
        Inr (case actual of Arr xs \<Rightarrow> stop_unless (list_ex (\<lambda>v. js_ge B v expected) xs)
             | _ \<Rightarrow> stop_unless (js_ge B actual expected))
      else if op = ''$lt'' then
        Inr (case actual of Arr xs \<Rightarrow> stop_unless (list_ex (\<lambda>v. js_lt B v expected) xs)
             | _ \<Rightarrow> stop_unless (js_lt B actual expected))
      else if op = ''$lte'' then
        Inr (case actual of Arr xs \<Rightarrow> stop_unless (list_ex (\<lambda>v. js_le B v expected) xs)
             | _ \<Rightarrow> stop_unless (js_le B actual expected))
      else if op = ''$in'' then
        (case actual of Arr xs \<Rightarrow> stop_unless_r (some_r (expected_includes expected) xs)
         | _ \<Rightarrow> stop_unless_r (expected_includes expected actual))
      else if op = ''$nin'' then
        (case actual of Arr xs \<Rightarrow> stop_unless_r (not_r (some_r (expected_includes expected) xs))
         | _ \<Rightarrow> stop_unless_r (not_r (expected_includes expected actual)))
      else if op = ''$exists'' then
        Inr (stop_unless (expected \<noteq> Bool False))
      else if op = ''$regex'' then
        Inr (case regex_test B expected
                    (if truthy (prop_of ops ''$options'') then prop_of ops ''$options'' else Str [])
                    actual of
               None \<Rightarrow> Return False
             | Some b \<Rightarrow> stop_unless b)
      else if op = ''$mod'' then
        Inr (case expected of
               Arr [d, r] \<Rightarrow>
                 (case actual of Arr xs \<Rightarrow> stop_unless (list_ex (mod_test B d r) xs)
                  | _ \<Rightarrow> stop_unless (mod_test B d r actual))
             | _ \<Rightarrow> Return False)
      else Inr Continue)"

lemma nat_to_dec_digits: "nat_to_dec n \<noteq> [] \<and> list_all is_digit (nat_to_dec n)"
proof (induction n rule: nat_to_dec.induct)
  case (1 n)
  have d: "is_digit (digit_char k)" if "k < 10" for k
  proof -
    from that have "k \<in> {0, 1, 2, 3, 4, 5, 6, 7, 8, 9}" by auto
    then show ?thesis by (auto simp: is_digit_def digit_char_def)
  qed
  show ?case
  proof (cases "n < 10")
    case True
    then have "nat_to_dec n = [digit_char n]"
      using nat_to_dec.simps [of n] by simp
    with True show ?thesis by (simp add: d)
  next
    case False
    then have "nat_to_dec n = nat_to_dec (n div 10) @ [digit_char (n mod 10)]"
      using nat_to_dec.simps [of n] by simp
    moreover from False 1 have
      "nat_to_dec (n div 10) \<noteq> [] \<and> list_all is_digit (nat_to_dec (n div 10))"
      by simp
    ultimately show ?thesis by (simp add: d)
  qed
qed

lemma index_key_no_dollar: "k \<in> set (index_keys n) \<Longrightarrow> hd k \<noteq> CHR ''$''"
proof -
  assume "k \<in> set (index_keys n)"
  then obtain i where k: "k = nat_to_dec i" by (auto simp: index_keys_def)
  from nat_to_dec_digits [of i] have "is_digit (hd (nat_to_dec i))"
    by (cases "nat_to_dec i") auto
  with k show ?thesis by (auto simp: is_digit_def)
qed

lemma entries_size:
  assumes "entries ops = Inr es" and "(op, e) \<in> set es" and "hd op = CHR ''$''"
  shows "size e < size ops"
proof (cases ops)
  case (Obj kvs)
  with assms have "(op, e) \<in> set kvs" by simp
  then have "size e < Suc (size_list (size_prod (\<lambda>_. 0) size) kvs)"
    by (induction kvs) auto
  with Obj show ?thesis by simp
next
  case (Arr xs)
  with assms have "e \<in> set xs" by (auto dest: set_zip_rightD)
  from size_elem_lt [OF this] Arr show ?thesis by simp
next
  case (Str s)
  with assms have "op \<in> set (index_keys (length s))" by (auto dest: set_zip_leftD)
  with assms(3) index_key_no_dollar show ?thesis by blast
qed (use assms in auto)

function matchesOperators :: "builtins \<Rightarrow> jsval \<Rightarrow> jsval \<Rightarrow> bool res" where
  "matchesOperators B actual ops =
     (case entries ops of
        Inl e \<Rightarrow> Inl e
      | Inr es \<Rightarrow>
          for_loop (\<lambda>(op, expected).
              if op = ''$options'' then Inr Continue
              else if actual = Undefined then Inr (operator_absent op expected)
              else if op = ''$not'' then
                (case matchesOperators B actual expected of
                   Inl e \<Rightarrow> Inl e
                 | Inr b \<Rightarrow> Inr (Return (\<not> b)))
              else operator_present B ops actual op expected)
            es True)"
  by pat_completeness auto
termination
proof (relation "measure (\<lambda>(B, actual, ops). size ops)", goal_cases)
  case 1
  show ?case by simp
next
  case (2 B actual ops es x op expected)
  then have "size expected < size ops"
    by (intro entries_size [of ops es op expected]) auto
  then show ?case by simp
qed

declare matchesOperators.simps [simp del]

definition starts_with_dollar :: "string \<Rightarrow> bool" where
  "starts_with_dollar k = (k \<noteq> [] \<and> hd k = CHR ''$'')"

lemma array_index_dollar: "hd k = CHR ''$'' \<Longrightarrow> array_index k = None"
  by (cases k) (auto simp: array_index_def is_digit_def)

lemma prop_dollar_size:
  assumes "hd k = CHR ''$''" and "prop_of v k \<noteq> Undefined"
  shows "size (prop_of v k) < size v"
proof (cases v)
  case (Obj kvs)
  with assms(2) obtain w where w: "map_of kvs k = Some w"
    by (auto simp: prop_of_def lookup_def split: option.splits)
  from size_lookup_lt [OF w] w Obj show ?thesis by (simp add: prop_of_def lookup_def)
next
  case (Arr xs)
  from assms(1) have "k \<noteq> ''length''" by auto
  with Arr assms array_index_dollar [OF assms(1)] show ?thesis
    by (simp add: prop_of_def)
next
  case (Str s)
  from assms(1) have "k \<noteq> ''length''" by auto
  with Str assms array_index_dollar [OF assms(1)] show ?thesis
    by (simp add: prop_of_def)
qed (use assms in \<open>auto simp: prop_of_def\<close>)

lemma prop_dollar_elem_size:
  assumes "hd k = CHR ''$''" and "prop_of v k = Arr fs" and "f \<in> set fs"
  shows "size f < size v"
proof -
  from assms(1,2) have "size (Arr fs) < size v"
    using prop_dollar_size [of k v] by simp
  with size_elem_lt [OF assms(3)] show ?thesis by simp
qed

text \<open>
  \<open>QueryEngine.matchesFilter(item, filter)\<close>. The four logical operators are tested in
  turn, each returning at once; only when none holds a truthy value are the keys of
  the filter walked over.
\<close>

function matchesFilter :: "builtins \<Rightarrow> jsval \<Rightarrow> jsval \<Rightarrow> bool res" where
  "matchesFilter B item flt =
     (if \<not> truthy flt then Inr True
      else if truthy (prop_of flt ''$and'') then
        (case prop_of flt ''$and'' of
           Arr fs \<Rightarrow> every_r (\<lambda>f. matchesFilter B item f) fs
         | _ \<Rightarrow> Inl TypeError)
      else if truthy (prop_of flt ''$or'') then
        (case prop_of flt ''$or'' of
           Arr fs \<Rightarrow> some_r (\<lambda>f. matchesFilter B item f) fs
         | _ \<Rightarrow> Inl TypeError)
      else if truthy (prop_of flt ''$nor'') then
        (case prop_of flt ''$nor'' of
           Arr fs \<Rightarrow> not_r (some_r (\<lambda>f. matchesFilter B item f) fs)
         | _ \<Rightarrow> Inl TypeError)
      else if truthy (prop_of flt ''$not'') then
        not_r (matchesFilter B item (prop_of flt ''$not''))
      else
        (case entries flt of
           Inl e \<Rightarrow> Inl e
         | Inr es \<Rightarrow>
             for_loop (\<lambda>(key, expected).
                 if starts_with_dollar key then Inr Continue
                 else
                   (case getValue item key of
                      Inl e \<Rightarrow> Inl e
                    | Inr value \<Rightarrow>
                        (case expected of
                           Obj _ \<Rightarrow> stop_unless_r (matchesOperators B value expected)
                         | _ \<Rightarrow>
                             (case value of
                                Arr xs \<Rightarrow> Inr (stop_unless (js_includes xs expected))
                              | _ \<Rightarrow> Inr (stop_unless (strict_eq value expected))))))
               es True))"
  by pat_completeness auto
termination
proof (relation "measure (\<lambda>(B, item, flt). size flt)", goal_cases)
  case 1
  show ?case by simp
next
  case (2 B item flt fs f)
  then show ?case using prop_dollar_elem_size [of "''$and''" flt fs f] by simp
next
  case (3 B item flt fs f)
  then show ?case using prop_dollar_elem_size [of "''$or''" flt fs f] by simp
next
  case (4 B item flt fs f)
  then show ?case using prop_dollar_elem_size [of "''$nor''" flt fs f] by simp
next
  case (5 B item flt)
  then have "prop_of flt ''$not'' \<noteq> Undefined" by auto
  then show ?case using prop_dollar_size [of "''$not''" flt] by simp
qed

declare matchesFilter.simps [simp del]

section \<open>Objects, maps and the heap\<close>

text \<open>
  \<open>obj[k] = v\<close> keeps the place of an existing key and appends a new one; \<open>delete obj[k]\<close>;
  \<open>Object.assign(target, source)\<close> writes the properties of the source in their order.
\<close>

fun obj_set :: "(string \<times> jsval) list \<Rightarrow> string \<Rightarrow> jsval \<Rightarrow> (string \<times> jsval) list" where
  "obj_set [] k v = [(k, v)]"
| "obj_set ((k', v') # kvs) k v =
     (if k' = k then (k', v) # kvs else (k', v') # obj_set kvs k v)"

definition obj_delete :: "(string \<times> jsval) list \<Rightarrow> string \<Rightarrow> (string \<times> jsval) list" where
  "obj_delete kvs k = filter (\<lambda>(k', _). k' \<noteq> k) kvs"

definition assign :: "(string \<times> jsval) list \<Rightarrow> (string \<times> jsval) list \<Rightarrow> (string \<times> jsval) list" where
  "assign target source = foldl (\<lambda>acc (k, v). obj_set acc k v) target source"

text \<open>
  A \<open>Map\<close> of the language, in insertion order. Its keys are compared like \<open>===\<close>:
  \<open>set\<close> on a key that is present keeps its place. The keys of \<open>idIndex\<close> are looked up
  by strings. The keys of a secondary index are values of document fields: for an
  array or an object the language finds the entry again through the reference that the
  document holds, which a tree does not have, so the model never finds a compound key
  again; secondary indexes on compound values are outside the model.
\<close>

fun map_get :: "(jsval \<times> 'a) list \<Rightarrow> jsval \<Rightarrow> 'a option" where
  "map_get [] k = None"
| "map_get ((k', v) # m) k = (if strict_eq k' k then Some v else map_get m k)"

fun map_set :: "(jsval \<times> 'a) list \<Rightarrow> jsval \<Rightarrow> 'a \<Rightarrow> (jsval \<times> 'a) list" where
  "map_set [] k v = [(k, v)]"
| "map_set ((k', v') # m) k v =
     (if strict_eq k' k then (k', v) # m else (k', v') # map_set m k v)"

fun map_delete :: "(jsval \<times> 'a) list \<Rightarrow> jsval \<Rightarrow> (jsval \<times> 'a) list" where
  "map_delete [] k = []"
| "map_delete ((k', v) # m) k = (if strict_eq k' k then m else (k', v) # map_delete m k)"

subsection \<open>\<open>JSON.stringify\<close>\<close>

definition hex_digit :: "nat \<Rightarrow> char" where
  "hex_digit n = ''0123456789abcdef'' ! n"

definition escape_char :: "char \<Rightarrow> string" where
  "escape_char c =
     (if c = CHR 0x22 then [CHR 0x5C, CHR 0x22]
      else if c = CHR 0x5C then [CHR 0x5C, CHR 0x5C]
      else if c = CHR 0x08 then [CHR 0x5C, CHR ''b'']
      else if c = CHR 0x0C then [CHR 0x5C, CHR ''f'']
      else if c = CHR 0x0A then [CHR 0x5C, CHR ''n'']
      else if c = CHR 0x0D then [CHR 0x5C, CHR ''r'']
      else if c = CHR 0x09 then [CHR 0x5C, CHR ''t'']
      else if (of_char c :: nat) < 32 then
        [CHR 0x5C, CHR ''u'', CHR ''0'', CHR ''0'',
         hex_digit (of_char c div 16), hex_digit (of_char c mod 16)]
      else [c])"

definition quote :: "string \<Rightarrow> string" where
  "quote s = CHR 0x22 # concat (map escape_char s) @ [CHR 0x22]"

text \<open>
  The text of a value that is not \<open>undefined\<close>: inside an array \<open>undefined\<close> is written
  \<open>null\<close>, and a property that holds \<open>undefined\<close> is left out.
\<close>

fun json :: "jsval \<Rightarrow> string"
  and json_elems :: "jsval list \<Rightarrow> string list"
  and json_props :: "(string \<times> jsval) list \<Rightarrow> string list" where
  "json Undefined = ''null''"
| "json Null = ''null''"
| "json (Bool b) = (if b then ''true'' else ''false'')"
| "json (Num n) = int_to_dec n"
| "json (Str s) = quote s"
| "json (Arr xs) = ''['' @ join_with '','' (json_elems xs) @ '']''"
| "json (Obj kvs) = ''{'' @ join_with '','' (json_props kvs) @ ''}''"
| "json_elems [] = []"
| "json_elems (x # xs) = json x # json_elems xs"
| "json_props [] = []"
| "json_props ((k, v) # kvs) =
     (if v = Undefined then json_props kvs else (quote k @ '':'' @ json v) # json_props kvs)"

subsection \<open>The state of the adapter\<close>

text \<open>
  Documents are objects of the heap: the array \<open>data\<close> of a collection, the lists kept
  in the query cache and the requests of the callers hold references to them, and an
  update writes to the object in place. The values inside a document are trees: an
  array or an object that an update stores in several documents is copied into each,
  where the language stores one reference; what a later write through one of these
  documents does to the others is outside the model.

  A secondary index is the nested \<open>Map\<close> of the source: one level for each field, an
  array of positions at the bottom. One collection is modelled (the adapter serves the
  collection named by the request; the query cache is shared by all of them). The
  timers and files of the persister, the log and \<open>lastSave\<close> are left out.
\<close>

type_synonym ref = nat

datatype inode = Positions "nat list" | Level "(jsval \<times> inode) list"

record index =
  index_fields :: "string list"
  index_orders :: "jsval list"
  index_map :: inode

record collection =
  data :: "ref list"
  dirty :: bool
  idIndex :: "(jsval \<times> nat) list"
  indexes :: "(string \<times> index) list"

record adapter =
  heap :: "ref \<Rightarrow> (string \<times> jsval) list"
  col :: collection
  queryCache :: "(string \<times> ref list) list"
  cacheHits :: nat

definition cacheSize :: nat where
  "cacheSize = 1000"

definition doc_at :: "adapter \<Rightarrow> ref \<Rightarrow> jsval" where
  "doc_at s r = Obj (heap s r)"

section \<open>Query engine: cache, count, sort, projection\<close>

fun filter_r :: "('a \<Rightarrow> bool res) \<Rightarrow> 'a list \<Rightarrow> 'a list res" where
  "filter_r f [] = Inr []"
| "filter_r f (x # xs) =
     (case f x of
        Inl e \<Rightarrow> Inl e
      | Inr b \<Rightarrow>
          (case filter_r f xs of Inl e \<Rightarrow> Inl e | Inr ys \<Rightarrow> Inr (if b then x # ys else ys)))"

text \<open>The results of a list of calls, in order: the first one that throws, or all of them.\<close>

fun sub_results :: "'a res list \<Rightarrow> 'a list res" where
  "sub_results [] = Inr []"
| "sub_results (Inl e # rs) = Inl e"
| "sub_results (Inr v # rs) =
     (case sub_results rs of Inl e \<Rightarrow> Inl e | Inr vs \<Rightarrow> Inr (v # vs))"

text \<open>\<open>Object.keys(v).length === 0\<close>, for a value that is not \<open>null\<close> or \<open>undefined\<close>.\<close>

definition no_keys :: "jsval \<Rightarrow> bool" where
  "no_keys v = (case entries v of Inr es \<Rightarrow> es = [] | Inl _ \<Rightarrow> False)"

text \<open>
  \<open>QueryEngine.applyFilters(data, filter)\<close>. The key of the cache is the text of the
  filter followed by the length of \<open>data\<close>; an entry holds the array of the documents
  that matched when it was made. Nothing ever removes an entry but the eviction of
  the oldest one when the cache is full.
\<close>

definition applyFilters ::
  "builtins \<Rightarrow> adapter \<Rightarrow> ref list \<Rightarrow> jsval \<Rightarrow> ref list res \<times> adapter" where
  "applyFilters B s dat flt =
     (if \<not> truthy flt \<or> no_keys flt then (Inr dat, s)
      else
        let cacheKey = json flt @ nat_to_dec (length dat) in
        case map_of (queryCache s) cacheKey of
          Some cached \<Rightarrow> (Inr cached, s\<lparr>cacheHits := cacheHits s + 1\<rparr>)
        | None \<Rightarrow>
            (case filter_r (\<lambda>item. matchesFilter B (doc_at s item) flt) dat of
               Inl e \<Rightarrow> (Inl e, s)
             | Inr results \<Rightarrow>
                 (Inr results,
                  s\<lparr>queryCache :=
                      (if cacheSize \<le> length (queryCache s) then tl (queryCache s)
                       else queryCache s) @ [(cacheKey, results)]\<rparr>)))"

text \<open>\<open>QueryEngine.count(data, filters)\<close>.\<close>

definition engine_count ::
  "builtins \<Rightarrow> adapter \<Rightarrow> ref list \<Rightarrow> jsval \<Rightarrow> nat res \<times> adapter" where
  "engine_count B s dat filters =
     (if \<not> truthy filters \<or> no_keys filters then (Inr (length dat), s)
      else
        (case applyFilters B s dat filters of
           (Inl e, s') \<Rightarrow> (Inl e, s')
         | (Inr results, s') \<Rightarrow> (Inr (length results), s')))"

text \<open>
  \<open>QueryEngine.sortResults(data, sortSpec)\<close>. The comparator is the one of the source;
  \<open>Array.prototype.sort\<close> is a stable sort, modelled by insertion from the right (the
  order in which an engine calls the comparator is not modelled). Where the comparator
  is no consistent order (a value that is neither less nor greater than any other, as
  \<open>undefined\<close> for a document without the field), the language leaves the resulting
  order to the engine, and the order of the model is one of the possible ones.
\<close>

definition compare_docs ::
  "builtins \<Rightarrow> (string \<times> jsval) list \<Rightarrow> jsval \<Rightarrow> jsval \<Rightarrow> int res" where
  "compare_docs B sortSpec a b =
     for_loop (\<lambda>(field, direction).
         case getValue a field of
           Inl e \<Rightarrow> Inl e
         | Inr aVal \<Rightarrow>
             (case getValue b field of
                Inl e \<Rightarrow> Inl e
              | Inr bVal \<Rightarrow>
                  if js_lt B aVal bVal then Inr (Return (if direction = Num 1 then - 1 else 1))
                  else if js_gt B aVal bVal then Inr (Return (if direction = Num 1 then 1 else - 1))
                  else Inr Continue))
       sortSpec 0"

fun insert_sorted :: "('a \<Rightarrow> 'a \<Rightarrow> int res) \<Rightarrow> 'a \<Rightarrow> 'a list \<Rightarrow> 'a list res" where
  "insert_sorted cmp x [] = Inr [x]"
| "insert_sorted cmp x (y # ys) =
     (case cmp x y of
        Inl e \<Rightarrow> Inl e
      | Inr c \<Rightarrow>
          if c \<le> 0 then Inr (x # y # ys)
          else (case insert_sorted cmp x ys of Inl e \<Rightarrow> Inl e | Inr r \<Rightarrow> Inr (y # r)))"

fun stable_sort :: "('a \<Rightarrow> 'a \<Rightarrow> int res) \<Rightarrow> 'a list \<Rightarrow> 'a list res" where
  "stable_sort cmp [] = Inr []"
| "stable_sort cmp (x # xs) =
     (case stable_sort cmp xs of Inl e \<Rightarrow> Inl e | Inr rest \<Rightarrow> insert_sorted cmp x rest)"

definition sortResults ::
  "builtins \<Rightarrow> adapter \<Rightarrow> ref list \<Rightarrow> (string \<times> jsval) list \<Rightarrow> ref list res" where
  "sortResults B s dat sortSpec =
     stable_sort (\<lambda>a b. compare_docs B sortSpec (doc_at s a) (doc_at s b)) dat"

text \<open>
  Writing and deleting a property of a value reached inside a document. A hole left in
  an array is represented by \<open>Undefined\<close>; a property of an array that is no index is
  not represented, and writing one leaves the array as it is.
\<close>

fun set_prop :: "jsval \<Rightarrow> string \<Rightarrow> jsval \<Rightarrow> jsval res" where
  "set_prop (Obj kvs) k v = Inr (Obj (obj_set kvs k v))"
| "set_prop (Arr xs) k v =
     Inr (case array_index k of
            Some i \<Rightarrow>
              Arr (if i < length xs then xs[i := v]
                   else xs @ replicate (i - length xs) Undefined @ [v])
          | None \<Rightarrow> Arr xs)"
| "set_prop _ k v = Inl TypeError"

fun del_prop :: "jsval \<Rightarrow> string \<Rightarrow> jsval res" where
  "del_prop (Obj kvs) k = Inr (Obj (obj_delete kvs k))"
| "del_prop (Arr xs) k =
     Inr (case array_index k of
            Some i \<Rightarrow> Arr (if i < length xs then xs[i := Undefined] else xs)
          | None \<Rightarrow> Arr xs)"
| "del_prop Undefined k = Inl TypeError"
| "del_prop Null k = Inl TypeError"
| "del_prop v k = Inr v"

text \<open>
  \<open>QueryEngine._removeFieldByPath(obj, path)\<close>, on the value of the object: the result is
  the object after the deletion.
\<close>

fun removeFieldByPath :: "jsval \<Rightarrow> string list \<Rightarrow> jsval res" where
  "removeFieldByPath current [] = Inr current"
| "removeFieldByPath current [lastPart] = del_prop current lastPart"
| "removeFieldByPath current (part # rest) =
     (case get_prop current part of
        Inl e \<Rightarrow> Inl e
      | Inr child \<Rightarrow>
          if child = Undefined \<or> \<not> typeof_object child then Inr current
          else
            (case removeFieldByPath child rest of
               Inl e \<Rightarrow> Inl e
             | Inr child' \<Rightarrow> set_prop current part child'))"

text \<open>
  \<open>QueryEngine.selectFields(data, projection)\<close>. An inclusion builds a new object for
  each document. An exclusion copies the document one level deep (\<open>{...doc}\<close>), so the
  deletion of a dotted path reaches into an object that the stored document shares
  with the copy: \<open>exclude_fields\<close> carries the copy and the stored document along.
\<close>

definition is_include :: "jsval \<Rightarrow> bool" where
  "is_include v = (v = Num 1 \<or> v = Bool True)"

definition is_exclude :: "jsval \<Rightarrow> bool" where
  "is_exclude v = (v = Num (- 1) \<or> v = Bool False)"

fun include_fields ::
  "jsval \<Rightarrow> (string \<times> jsval) list \<Rightarrow> (string \<times> jsval) list \<Rightarrow> (string \<times> jsval) list res" where
  "include_fields doc [] result = Inr result"
| "include_fields doc ((field, include) # rest) result =
     (if is_include include then
        (case getValue doc field of
           Inl e \<Rightarrow> Inl e
         | Inr v \<Rightarrow> include_fields doc rest (obj_set result field v))
      else include_fields doc rest result)"

fun exclude_fields ::
  "(string \<times> jsval) list \<Rightarrow> (string \<times> jsval) list \<Rightarrow> (string \<times> jsval) list
     \<Rightarrow> jserror option \<times> (string \<times> jsval) list \<times> (string \<times> jsval) list" where
  "exclude_fields [] result stored = (None, result, stored)"
| "exclude_fields ((field, exclude) # rest) result stored =
     (if is_exclude exclude then
        (if length (split_dot field) = 1 then
           exclude_fields rest (obj_delete result field) stored
         else
           (case removeFieldByPath (Obj result) (split_dot field) of
              Inl e \<Rightarrow> (Some e, result, stored)
            | Inr (Obj result') \<Rightarrow>
                exclude_fields rest result'
                  (if map_of result (hd (split_dot field)) = None then stored
                   else obj_set stored (hd (split_dot field))
                          (lookup result' (hd (split_dot field))))
            | Inr _ \<Rightarrow> (None, result, stored)))
      else exclude_fields rest result stored)"

fun exclude_all ::
  "(string \<times> jsval) list \<Rightarrow> ref list \<Rightarrow> adapter \<Rightarrow> jsval list res \<times> adapter" where
  "exclude_all projection [] s = (Inr [], s)"
| "exclude_all projection (r # rs) s =
     (case exclude_fields projection (heap s r) (heap s r) of
        (Some e, result, stored) \<Rightarrow> (Inl e, s\<lparr>heap := (heap s)(r := stored)\<rparr>)
      | (None, result, stored) \<Rightarrow>
          (case exclude_all projection rs (s\<lparr>heap := (heap s)(r := stored)\<rparr>) of
             (Inl e, s') \<Rightarrow> (Inl e, s')
           | (Inr docs, s') \<Rightarrow> (Inr (Obj result # docs), s')))"

definition selectFields ::
  "adapter \<Rightarrow> ref list \<Rightarrow> (string \<times> jsval) list \<Rightarrow> jsval list res \<times> adapter" where
  "selectFields s dat projection =
     (if projection = [] then (Inr (map (doc_at s) dat), s)
      else if list_ex (\<lambda>(_, v). is_include v) projection
              \<and> \<not> list_ex (\<lambda>(_, v). is_exclude v) projection then
        (sub_results
           (map (\<lambda>r. case include_fields (doc_at s r) projection [] of
                        Inl e \<Rightarrow> Inl e | Inr result \<Rightarrow> Inr (Obj result)) dat), s)
      else if list_ex (\<lambda>(_, v). is_exclude v) projection
              \<and> \<not> list_ex (\<lambda>(_, v). is_include v) projection then
        exclude_all projection dat s
      else (Inr (map (doc_at s) dat), s))"

section \<open>Update applier\<close>

text \<open>\<open>a + b\<close>: the sum of two numbers; anything else is left to the coercions.\<close>

definition js_plus :: "builtins \<Rightarrow> jsval \<Rightarrow> jsval \<Rightarrow> jsval" where
  "js_plus B a b = (case (a, b) of (Num x, Num y) \<Rightarrow> Num (x + y) | _ \<Rightarrow> add_coerced B a b)"

definition number_or_zero :: "jsval \<Rightarrow> jsval" where
  "number_or_zero v = (case v of Num n \<Rightarrow> Num n | _ \<Rightarrow> Num 0)"

definition array_or_empty :: "jsval \<Rightarrow> jsval list" where
  "array_or_empty v = (case v of Arr xs \<Rightarrow> xs | _ \<Rightarrow> [])"

definition add_to_set :: "jsval list \<Rightarrow> jsval \<Rightarrow> jsval list" where
  "add_to_set xs v = (if js_includes xs v then xs else xs @ [v])"

text \<open>
  The closure \<open>applyNestedOperation(obj, path, operation, value)\<close> of
  \<open>applyUpdateToDoc\<close>: the \<open>switch\<close> at the last segment, and the walk that creates the
  objects on the way. The result is the object after the operation.
\<close>

definition leaf_operation ::
  "builtins \<Rightarrow> string \<Rightarrow> jsval \<Rightarrow> jsval \<Rightarrow> string \<Rightarrow> jsval res" where
  "leaf_operation B operation v current lastPart =
     (if operation = ''set'' then set_prop current lastPart v
      else if operation = ''unset'' then del_prop current lastPart
      else
        (case get_prop current lastPart of
           Inl e \<Rightarrow> Inl e
         | Inr old \<Rightarrow>
             if operation = ''inc'' then
               set_prop current lastPart (js_plus B (number_or_zero old) v)
             else if operation = ''push'' then
               set_prop current lastPart (Arr (array_or_empty old @ [v]))
             else if operation = ''addToSet'' then
               set_prop current lastPart (Arr (add_to_set (array_or_empty old) v))
             else if operation = ''pull'' then
               (case old of
                  Arr xs \<Rightarrow> set_prop current lastPart (Arr (filter (\<lambda>item. \<not> strict_eq item v) xs))
                | _ \<Rightarrow> Inr current)
             else Inr current))"

fun applyNestedOperation ::
  "builtins \<Rightarrow> string \<Rightarrow> jsval \<Rightarrow> jsval \<Rightarrow> string list \<Rightarrow> jsval res" where
  "applyNestedOperation B operation v current [] = Inr current"
| "applyNestedOperation B operation v current [lastPart] =
     leaf_operation B operation v current lastPart"
| "applyNestedOperation B operation v current (part # rest) =
     (case get_prop current part of
        Inl e \<Rightarrow> Inl e
      | Inr child \<Rightarrow>
          (case applyNestedOperation B operation v
                  (if child = Undefined \<or> \<not> typeof_object child then Obj [] else child) rest of
             Inl e \<Rightarrow> Inl e
           | Inr child' \<Rightarrow> set_prop current part child'))"

definition nested_on_doc ::
  "builtins \<Rightarrow> string \<Rightarrow> string \<Rightarrow> jsval \<Rightarrow> (string \<times> jsval) list
     \<Rightarrow> jserror option \<times> (string \<times> jsval) list" where
  "nested_on_doc B operation k v doc =
     (case applyNestedOperation B operation v (Obj doc) (split_dot k) of
        Inl e \<Rightarrow> (Some e, doc)
      | Inr (Obj doc') \<Rightarrow> (None, doc')
      | Inr _ \<Rightarrow> (None, doc))"

text \<open>
  One entry of each operator of \<open>applyUpdateToDoc\<close>, applied to the document. A step
  that throws leaves the document as it was when the exception was raised.
\<close>

definition has_dot :: "string \<Rightarrow> bool" where
  "has_dot k = (CHR ''.'' \<in> set k)"

definition set_step ::
  "builtins \<Rightarrow> string \<times> jsval \<Rightarrow> (string \<times> jsval) list \<Rightarrow> jserror option \<times> (string \<times> jsval) list" where
  "set_step B = (\<lambda>(k, v) doc.
     if has_dot k then nested_on_doc B ''set'' k v doc else (None, obj_set doc k v))"

definition unset_step ::
  "builtins \<Rightarrow> string \<times> jsval \<Rightarrow> (string \<times> jsval) list \<Rightarrow> jserror option \<times> (string \<times> jsval) list" where
  "unset_step B = (\<lambda>(k, v) doc.
     if has_dot k then nested_on_doc B ''unset'' k Null doc else (None, obj_delete doc k))"

definition inc_step ::
  "builtins \<Rightarrow> string \<times> jsval \<Rightarrow> (string \<times> jsval) list \<Rightarrow> jserror option \<times> (string \<times> jsval) list" where
  "inc_step B = (\<lambda>(k, v) doc.
     if has_dot k then nested_on_doc B ''inc'' k v doc
     else (None, obj_set doc k (js_plus B (number_or_zero (lookup doc k)) v)))"

definition push_step ::
  "builtins \<Rightarrow> string \<times> jsval \<Rightarrow> (string \<times> jsval) list \<Rightarrow> jserror option \<times> (string \<times> jsval) list" where
  "push_step B = (\<lambda>(k, v) doc.
     if has_dot k then nested_on_doc B ''push'' k v doc
     else (None, obj_set doc k (Arr (array_or_empty (lookup doc k) @ [v]))))"

text \<open>\<open>for (const item of v)\<close>: an array gives its elements, a string its characters.\<close>

fun iterate :: "jsval \<Rightarrow> jsval list res" where
  "iterate (Arr xs) = Inr xs"
| "iterate (Str s) = Inr (map (\<lambda>c. Str [c]) s)"
| "iterate _ = Inl TypeError"

definition addToSet_step ::
  "builtins \<Rightarrow> string \<times> jsval \<Rightarrow> (string \<times> jsval) list \<Rightarrow> jserror option \<times> (string \<times> jsval) list" where
  "addToSet_step B = (\<lambda>(k, v) doc.
     if has_dot k then nested_on_doc B ''addToSet'' k v doc
     else
       let doc1 = (case lookup doc k of Arr xs \<Rightarrow> doc | _ \<Rightarrow> obj_set doc k (Arr []))
       in if truthy v \<and> typeof_object v \<and> truthy (prop_of v ''$each'') then
            (case iterate (prop_of v ''$each'') of
               Inl e \<Rightarrow> (Some e, doc1)
             | Inr items \<Rightarrow>
                 (None, obj_set doc1 k (Arr (foldl add_to_set (array_or_empty (lookup doc1 k)) items))))
          else (None, obj_set doc1 k (Arr (add_to_set (array_or_empty (lookup doc1 k)) v))))"

definition pull_keeps :: "jsval \<Rightarrow> jsval \<Rightarrow> bool res" where
  "pull_keeps v item =
     (if typeof_object v then
        (case get_prop v ''$in'' of
           Inl e \<Rightarrow> Inl e
         | Inr members \<Rightarrow>
             if truthy members then not_r (expected_includes members item)
             else Inr (\<not> strict_eq item v))
      else Inr (\<not> strict_eq item v))"

definition pull_step ::
  "builtins \<Rightarrow> string \<times> jsval \<Rightarrow> (string \<times> jsval) list \<Rightarrow> jserror option \<times> (string \<times> jsval) list" where
  "pull_step B = (\<lambda>(k, v) doc.
     if has_dot k then nested_on_doc B ''pull'' k v doc
     else
       (case lookup doc k of
          Arr xs \<Rightarrow>
            (case filter_r (pull_keeps v) xs of
               Inl e \<Rightarrow> (Some e, doc)
             | Inr kept \<Rightarrow> (None, obj_set doc k (Arr kept)))
        | _ \<Rightarrow> (None, doc)))"

fun run_entries ::
  "('a \<Rightarrow> 'd \<Rightarrow> jserror option \<times> 'd) \<Rightarrow> 'a list \<Rightarrow> 'd \<Rightarrow> jserror option \<times> 'd" where
  "run_entries step [] doc = (None, doc)"
| "run_entries step (e # es) doc =
     (case step e doc of
        (Some err, doc') \<Rightarrow> (Some err, doc')
      | (None, doc') \<Rightarrow> run_entries step es doc')"

text \<open>\<open>if (update.$op) for (... of Object.entries(update.$op)) ...\<close>\<close>

definition operator_phase ::
  "(string \<times> jsval \<Rightarrow> (string \<times> jsval) list \<Rightarrow> jserror option \<times> (string \<times> jsval) list)
     \<Rightarrow> jsval \<Rightarrow> (string \<times> jsval) list \<Rightarrow> jserror option \<times> (string \<times> jsval) list" where
  "operator_phase step payload doc =
     (if truthy payload then
        (case entries payload of
           Inl e \<Rightarrow> (Some e, doc)
         | Inr es \<Rightarrow> run_entries step es doc)
      else (None, doc))"

definition hasRootLevelOperators :: "(string \<times> jsval) list \<Rightarrow> bool" where
  "hasRootLevelOperators update =
     list_ex (\<lambda>op. op \<in> fst ` set update)
       [''$set'', ''$unset'', ''$inc'', ''$push'', ''$pull'', ''$addToSet'']"

text \<open>
  \<open>QueryEngine.applyUpdateToDoc(doc, update)\<close>; \<open>now\<close> is the time that the clock gives.
  The operators run in the order of the source, whatever their order in \<open>update\<close>.
\<close>

definition applyUpdateToDoc ::
  "builtins \<Rightarrow> string \<Rightarrow> (string \<times> jsval) list \<Rightarrow> jsval
     \<Rightarrow> jserror option \<times> (string \<times> jsval) list" where
  "applyUpdateToDoc B now doc update =
     (if \<not> truthy update then (None, doc)
      else
        (case update of
           Obj u \<Rightarrow>
             if hasRootLevelOperators u then
               (case run_entries (\<lambda>(step, op). operator_phase step (lookup u op))
                       [(set_step B, ''$set''), (unset_step B, ''$unset''),
                        (inc_step B, ''$inc''), (push_step B, ''$push''),
                        (addToSet_step B, ''$addToSet''), (pull_step B, ''$pull'')] doc of
                  (Some e, doc') \<Rightarrow> (Some e, doc')
                | (None, doc') \<Rightarrow> (None, obj_set doc' ''updatedAt'' (Str now)))
             else (None, obj_set (assign doc u) ''updatedAt'' (Str now))
         | Arr xs \<Rightarrow>
             (None, obj_set (assign doc (zip (index_keys (length xs)) xs)) ''updatedAt'' (Str now))
         | _ \<Rightarrow> (Some TypeError, doc)))"

section \<open>Collection store\<close>

subsection \<open>Secondary indexes\<close>

text \<open>
  The walk of \<open>_updateIndexesOnInsert\<close> and of \<open>createIndex\<close> down one index for one
  document: a level is created where the value is new, the position is pushed at the
  bottom. The walk stops at a field that the document does not have, and says so. (A
  node is an array exactly below the last field; the last equation cannot arise.)
\<close>

fun index_add :: "inode \<Rightarrow> string list \<Rightarrow> (string \<times> jsval) list \<Rightarrow> nat \<Rightarrow> inode \<times> bool" where
  "index_add (Positions ps) [] doc docIdx = (Positions (ps @ [docIdx]), True)"
| "index_add (Level m) (f # fs) doc docIdx =
     (if lookup doc f = Undefined then (Level m, False)
      else
        (case index_add
                (case map_get m (lookup doc f) of
                   Some child \<Rightarrow> child
                 | None \<Rightarrow> if fs = [] then Positions [] else Level [])
                fs doc docIdx of
           (child', pushed) \<Rightarrow> (Level (map_set m (lookup doc f) child'), pushed)))"
| "index_add node fs doc docIdx = (node, True)"

text \<open>
  \<open>LocalAdapter._updateIndexesOnInsert(col, doc, docIdx)\<close>. The \<open>return\<close> at a missing
  field leaves the function: the indexes that come after are not visited.
\<close>

fun updateIndexesOnInsert ::
  "(string \<times> index) list \<Rightarrow> (string \<times> jsval) list \<Rightarrow> nat \<Rightarrow> (string \<times> index) list" where
  "updateIndexesOnInsert [] doc docIdx = []"
| "updateIndexesOnInsert ((key, idx) # rest) doc docIdx =
     (case index_add (index_map idx) (index_fields idx) doc docIdx of
        (m, pushed) \<Rightarrow>
          (key, idx\<lparr>index_map := m\<rparr>)
            # (if pushed then updateIndexesOnInsert rest doc docIdx else rest))"

text \<open>
  \<open>LocalAdapter._removeFromIndex(index, doc, docIdx)\<close>: the first occurrence of the
  position is taken out of the array that the fields of the document lead to; an
  array left empty is deleted from its level, and so is each level left empty above
  it. The flag says that the node was left empty by the removal.
\<close>

fun index_remove :: "inode \<Rightarrow> string list \<Rightarrow> (string \<times> jsval) list \<Rightarrow> nat \<Rightarrow> inode \<times> bool" where
  "index_remove (Positions ps) [] doc docIdx =
     (if docIdx \<in> set ps then (Positions (remove1 docIdx ps), remove1 docIdx ps = [])
      else (Positions ps, False))"
| "index_remove (Level m) (f # fs) doc docIdx =
     (case (if lookup doc f = Undefined then None else map_get m (lookup doc f)) of
        None \<Rightarrow> (Level m, False)
      | Some child \<Rightarrow>
          (case index_remove child fs doc docIdx of
             (child', emptied) \<Rightarrow>
               if emptied then
                 (Level (map_delete m (lookup doc f)), map_delete m (lookup doc f) = [])
               else (Level (map_set m (lookup doc f) child'), False)))"
| "index_remove node fs doc docIdx = (node, False)"

definition removeFromIndex :: "index \<Rightarrow> (string \<times> jsval) list \<Rightarrow> nat \<Rightarrow> index" where
  "removeFromIndex idx doc docIdx =
     idx\<lparr>index_map := fst (index_remove (index_map idx) (index_fields idx) doc docIdx)\<rparr>"

subsection \<open>Responses\<close>

text \<open>
  The envelope that every operation returns. The text of an exception that the
  language itself raises is not modelled: it is written \<open>TypeError\<close>.
\<close>

definition success :: "jsval \<Rightarrow> jsval" where
  "success d = Obj [(''success'', Bool True), (''data'', d), (''error'', Null)]"

definition failure :: "jsval \<Rightarrow> string \<Rightarrow> int \<Rightarrow> jsval" where
  "failure d msg code =
     Obj [(''success'', Bool False), (''data'', d),
          (''error'', Obj [(''message'', Str msg), (''code'', Num code)])]"

definition find_failure :: "string \<Rightarrow> int \<Rightarrow> jsval" where
  "find_failure msg code =
     Obj [(''success'', Bool False), (''data'', Arr []), (''total'', Num 0),
          (''error'', Obj [(''message'', Str msg), (''code'', Num code)])]"

definition message_or :: "jserror \<Rightarrow> string \<Rightarrow> string" where
  "message_or e fallback =
     (case e of Error m \<Rightarrow> if m = [] then fallback else m | TypeError \<Rightarrow> ''TypeError'')"

subsection \<open>createIndex\<close>

definition build_index :: "adapter \<Rightarrow> string list \<Rightarrow> inode" where
  "build_index s fs =
     foldl (\<lambda>m (docIdx, r). fst (index_add m fs (heap s r) docIdx)) (Level [])
       (zip [0..<length (data (col s))] (data (col s)))"

definition top_size :: "inode \<Rightarrow> nat" where
  "top_size node = (case node of Level m \<Rightarrow> length m | Positions ps \<Rightarrow> length ps)"

definition createIndex_op :: "adapter \<Rightarrow> jsval \<Rightarrow> jsval \<times> adapter" where
  "createIndex_op s indexDef =
     (case entries indexDef of
        Inl e \<Rightarrow> (failure Null (message_or e ''Failed to create index'') 500, s)
      | Inr defs \<Rightarrow>
          if defs = [] then (failure Null ''Index definition cannot be empty'' 400, s)
          else if \<not> list_all (\<lambda>(f, ord). ord = Num 1 \<or> ord = Num (- 1)) defs then
            (failure Null ''Index order must be 1 or -1'' 400, s)
          else
            let indexKey = join_with ''|'' (map (\<lambda>(f, ord). f @ '':'' @ to_string ord) defs) in
            if map_of (indexes (col s)) indexKey \<noteq> None then
              (failure Null ''Index already exists'' 409, s)
            else
              let idx = \<lparr>index_fields = map fst defs, index_orders = map snd defs,
                         index_map = build_index s (map fst defs)\<rparr>
              in (success (Obj [(''fields'', Arr (map Str (map fst defs))),
                                (''orders'', Arr (map snd defs)),
                                (''size'', Num (int (top_size (index_map idx))))]),
                  s\<lparr>col := (col s)\<lparr>indexes := indexes (col s) @ [(indexKey, idx)]\<rparr>\<rparr>))"

subsection \<open>count and find\<close>

text \<open>The default of a destructured parameter: \<open>{ filters = {} }\<close>.\<close>

definition default_filters :: "jsval \<Rightarrow> jsval" where
  "default_filters filters = (if filters = Undefined then Obj [] else filters)"

definition count_op :: "builtins \<Rightarrow> adapter \<Rightarrow> jsval \<Rightarrow> jsval \<times> adapter" where
  "count_op B s filters =
     (if truthy (default_filters filters) \<and> \<not> typeof_object (default_filters filters) then
        (failure Null ''Filters must be an object'' 500, s)
      else
        (case engine_count B s (data (col s)) (default_filters filters) of
           (Inl e, s') \<Rightarrow> (failure Null (message_or e ''Failed to count documents'') 500, s')
         | (Inr n, s') \<Rightarrow> (success (Num (int n)), s')))"

definition validOperators :: "string list" where
  "validOperators =
     [''$eq'', ''$ne'', ''$gt'', ''$gte'', ''$lt'', ''$lte'', ''$in'', ''$nin'',
      ''$exists'', ''$regex'', ''$and'', ''$or'', ''$not'']"

lemma entries_object_size:
  assumes "entries flt = Inr es" and "(k, v) \<in> set es" and "typeof_object v" and "truthy v"
  shows "size v < size flt"
proof (cases flt)
  case (Obj kvs)
  with assms have "(k, v) \<in> set kvs" by simp
  then have "size v < Suc (size_list (size_prod (\<lambda>_. 0) size) kvs)"
    by (induction kvs) auto
  with Obj show ?thesis by simp
next
  case (Arr xs)
  with assms have "v \<in> set xs" by (auto dest: set_zip_rightD)
  from size_elem_lt [OF this] Arr show ?thesis by simp
next
  case (Str str)
  with assms(1,2) have "v \<in> set (map (\<lambda>c. Str [c]) str)" by (auto dest: set_zip_rightD)
  with assms(3) show ?thesis by auto
qed (use assms in auto)

text \<open>The closure \<open>validateFilter\<close> of \<open>find\<close>.\<close>

function validateFilter :: "jsval \<Rightarrow> unit res" where
  "validateFilter flt =
     (case entries flt of
        Inl e \<Rightarrow> Inr ()
      | Inr es \<Rightarrow>
          for_loop (\<lambda>(key, v).
              if starts_with_dollar key \<and> key \<notin> set validOperators then
                Inl (Error (''Invalid query operator: '' @ key @ ''. Valid operators: ''
                              @ join_with '', '' validOperators))
              else if truthy v \<and> typeof_object v then
                (case validateFilter v of Inl e \<Rightarrow> Inl e | Inr u \<Rightarrow> Inr Continue)
              else Inr Continue)
            es ())"
  by pat_completeness auto
termination
proof (relation "measure size", goal_cases)
  case 1
  show ?case by simp
next
  case (2 flt es x key v)
  then have "size v < size flt"
    by (intro entries_object_size [of flt es key v]) auto
  then show ?case by simp
qed

declare validateFilter.simps [simp del]

text \<open>
  The options of \<open>find\<close>, with the types that the interface gives them: \<open>sort\<close> and
  \<open>fields\<close> are objects, \<open>skip\<close> is a number, \<open>limit\<close> a number or a string.
\<close>

datatype limit_value = LimitNumber int | LimitString string

record find_options =
  opt_sort :: "(string \<times> jsval) list option"
  opt_skip :: "int option"
  opt_limit :: "limit_value option"
  opt_fields :: "(string \<times> jsval) list option"

definition to_lower :: "char \<Rightarrow> char" where
  "to_lower c =
     (case map_of (zip ''ABCDEFGHIJKLMNOPQRSTUVWXYZ'' ''abcdefghijklmnopqrstuvwxyz'') c of
        Some l \<Rightarrow> l | None \<Rightarrow> c)"

definition sort_stage :: "builtins \<Rightarrow> adapter \<Rightarrow> find_options \<Rightarrow> ref list \<Rightarrow> ref list res" where
  "sort_stage B s options dat =
     (case opt_sort options of None \<Rightarrow> Inr dat | Some sortSpec \<Rightarrow> sortResults B s dat sortSpec)"

definition skip_stage :: "find_options \<Rightarrow> ref list \<Rightarrow> ref list res" where
  "skip_stage options dat =
     (case opt_skip options of
        None \<Rightarrow> Inr dat
      | Some n \<Rightarrow>
          if n = 0 then Inr dat
          else if n < 0 then Inl (Error ''Skip cannot be negative'')
          else Inr (drop (nat n) dat))"

definition take_limit :: "int option \<Rightarrow> ref list \<Rightarrow> ref list res" where
  "take_limit limitNum dat =
     (case limitNum of
        None \<Rightarrow> Inl (Error (''Limit must be a number or '' @ [CHR 0x22] @ ''all'' @ [CHR 0x22]))
      | Some n \<Rightarrow>
          if n < 0 then Inl (Error ''Limit cannot be negative'') else Inr (take (nat n) dat))"

definition limit_stage :: "find_options \<Rightarrow> ref list \<Rightarrow> ref list res" where
  "limit_stage options dat =
     (case opt_limit options of
        None \<Rightarrow> Inr dat
      | Some (LimitNumber n) \<Rightarrow>
          if n = 0 then Inr dat else take_limit (parseInt (int_to_dec n)) dat
      | Some (LimitString str) \<Rightarrow>
          if str = [] \<or> map to_lower str = ''all'' then Inr dat
          else take_limit (parseInt (map to_lower str)) dat)"

definition fields_stage :: "adapter \<Rightarrow> find_options \<Rightarrow> ref list \<Rightarrow> jsval list res \<times> adapter" where
  "fields_stage s options dat =
     (case opt_fields options of
        None \<Rightarrow> (Inr (map (doc_at s) dat), s)
      | Some projection \<Rightarrow> selectFields s dat projection)"

definition pipeline ::
  "builtins \<Rightarrow> adapter \<Rightarrow> find_options \<Rightarrow> ref list \<Rightarrow> jsval list res \<times> adapter" where
  "pipeline B s options allResults =
     (case sort_stage B s options allResults of
        Inl e \<Rightarrow> (Inl e, s)
      | Inr sorted_docs \<Rightarrow>
          (case skip_stage options sorted_docs of
             Inl e \<Rightarrow> (Inl e, s)
           | Inr skipped \<Rightarrow>
               (case limit_stage options skipped of
                  Inl e \<Rightarrow> (Inl e, s)
                | Inr limited \<Rightarrow> fields_stage s options limited)))"

text \<open>
  \<open>LocalAdapter.find({filters, options})\<close>. The block \<open>pagination\<close> that a successful
  response carries when a limit is given is left out of the response.
\<close>

definition find_op ::
  "builtins \<Rightarrow> adapter \<Rightarrow> jsval \<Rightarrow> find_options \<Rightarrow> jsval \<times> adapter" where
  "find_op B s filters options =
     (if truthy (default_filters filters) \<and> \<not> typeof_object (default_filters filters) then
        (find_failure ''Filters must be an object'' 500, s)
      else
        (case validateFilter (default_filters filters) of
           Inl e \<Rightarrow> (find_failure (message_or e ''An unexpected error occurred during find'') 500, s)
         | Inr u \<Rightarrow>
             (case applyFilters B s (data (col s)) (default_filters filters) of
                (Inl e, s1) \<Rightarrow>
                  (find_failure (message_or e ''An unexpected error occurred during find'') 500, s1)
              | (Inr allResults, s1) \<Rightarrow>
                  (case pipeline B s1 options allResults of
                     (Inl e, s2) \<Rightarrow>
                       (find_failure (message_or e ''An unexpected error occurred during find'') 500, s2)
                   | (Inr docs, s2) \<Rightarrow>
                       if length allResults = 0 then
                         (find_failure ''No documents found matching the criteria'' 404, s2)
                       else
                         (Obj [(''success'', Bool True), (''data'', Arr docs),
                               (''total'', Num (int (length allResults))), (''error'', Null)],
                          s2)))))"

subsection \<open>insert\<close>

text \<open>
  The documents to insert are objects of the caller, given by reference: \<open>insert\<close>
  writes their \<open>id\<close> and \<open>createdAt\<close> to them and stores the references. \<open>now\<close> is
  \<open>new Date().toISOString()\<close>, \<open>prefix\<close> is \<open>Date.now().toString(36)\<close> and \<open>random\<close> is the
  result of \<open>generateId()\<close>, each read at most once by an insert.
\<close>

datatype insert_data = One ref | Many "ref list"

record insert_env =
  env_now :: string
  env_prefix :: string
  env_random :: string

record insert_state =
  st :: adapter
  sequence :: nat
  allIdsWereGenerated :: bool
  inserted :: "ref list"
  updated :: "ref list"

definition set_field :: "adapter \<Rightarrow> ref \<Rightarrow> string \<Rightarrow> jsval \<Rightarrow> adapter" where
  "set_field s r k v = s\<lparr>heap := (heap s)(r := obj_set (heap s r) k v)\<rparr>"

definition field :: "adapter \<Rightarrow> ref \<Rightarrow> string \<Rightarrow> jsval" where
  "field s r k = lookup (heap s r) k"

text \<open>The first half of the body of the loop: the id of the document.\<close>

definition assign_id :: "insert_env \<Rightarrow> bool \<Rightarrow> insert_state \<Rightarrow> ref \<Rightarrow> string \<times> insert_state" where
  "assign_id env useSequentialIds t doc =
     (if \<not> truthy (field (st t) doc ''id'') then
        (if useSequentialIds then
           (env_prefix env @ ''_'' @ nat_to_dec (sequence t + 1),
            t\<lparr>st := set_field (st t) doc ''id''
                       (Str (env_prefix env @ ''_'' @ nat_to_dec (sequence t + 1))),
              sequence := sequence t + 1\<rparr>)
         else
           (env_random env, t\<lparr>st := set_field (st t) doc ''id'' (Str (env_random env))\<rparr>))
      else
        (to_string (field (st t) doc ''id''),
         t\<lparr>st := set_field (st t) doc ''id'' (Str (to_string (field (st t) doc ''id''))),
           allIdsWereGenerated := False\<rparr>))"

text \<open>
  The second half: an id that \<open>idIndex\<close> knows makes the insert an update of the
  document at that position (an exception if there is none): \<open>Object.assign\<close> of the
  input over it, its \<open>createdAt\<close> put back, \<open>updatedAt\<close> set. Any other id appends.
\<close>

definition merged_document ::
  "insert_env \<Rightarrow> (string \<times> jsval) list \<Rightarrow> (string \<times> jsval) list \<Rightarrow> (string \<times> jsval) list" where
  "merged_document env existing doc =
     obj_set (obj_set (assign existing doc) ''createdAt'' (lookup existing ''createdAt''))
       ''updatedAt'' (Str (env_now env))"

definition upsert_existing :: "insert_env \<Rightarrow> insert_state \<Rightarrow> ref \<Rightarrow> nat \<Rightarrow> jserror option \<times> insert_state" where
  "upsert_existing env t doc existingIndex =
     (if existingIndex < length (data (col (st t))) then
        (let existingDoc = data (col (st t)) ! existingIndex
         in (None, t\<lparr>st := (st t)\<lparr>heap := (heap (st t))
                                    (existingDoc :=
                                       merged_document env (heap (st t) existingDoc)
                                         (heap (st t) doc))\<rparr>,
                     updated := updated t @ [existingDoc]\<rparr>))
      else (Some TypeError, t))"

definition insert_new :: "insert_env \<Rightarrow> insert_state \<Rightarrow> ref \<Rightarrow> string \<Rightarrow> insert_state" where
  "insert_new env t doc docId =
     (let s1 = set_field (st t) doc ''id'' (Str docId);
          s2 = set_field s1 doc ''createdAt''
                 (if truthy (field s1 doc ''createdAt'') then field s1 doc ''createdAt''
                  else Str (env_now env));
          newIndex = length (data (col s2));
          c = col s2
      in t\<lparr>st := s2\<lparr>col := c\<lparr>data := data c @ [doc],
                               idIndex := map_set (idIndex c) (Str docId) newIndex,
                               indexes := updateIndexesOnInsert (indexes c) (heap s2 doc) newIndex\<rparr>\<rparr>,
           inserted := inserted t @ [doc]\<rparr>)"

definition insert_one :: "insert_env \<Rightarrow> bool \<Rightarrow> ref \<Rightarrow> insert_state \<Rightarrow> jserror option \<times> insert_state" where
  "insert_one env useSequentialIds doc t =
     (case assign_id env useSequentialIds t doc of
        (docId, t1) \<Rightarrow>
          (case map_get (idIndex (col (st t1))) (Str docId) of
             Some existingIndex \<Rightarrow> upsert_existing env t1 doc existingIndex
           | None \<Rightarrow> (None, insert_new env t1 doc docId)))"

definition insert_response :: "insert_env \<Rightarrow> bool \<Rightarrow> insert_state \<Rightarrow> jsval" where
  "insert_response env useSequentialIds t =
     Obj ([(''insertedCount'', Num (int (length (inserted t)))),
           (''updatedCount'', Num (int (length (updated t))))]
          @ (if inserted t = [] then []
             else if 20 < length (inserted t) then
               [(''firstId'', field (st t) (hd (inserted t)) ''id''),
                (''lastId'', field (st t) (last (inserted t)) ''id'')]
               @ (if allIdsWereGenerated t \<and> useSequentialIds
                  then [(''prefix'', Str (env_prefix env @ ''_''))] else [])
             else [(''insertedIds'', Arr (map (\<lambda>d. field (st t) d ''id'') (inserted t)))]))"

text \<open>\<open>LocalAdapter.insert({data})\<close>.\<close>

definition insert_op :: "insert_env \<Rightarrow> adapter \<Rightarrow> insert_data \<Rightarrow> jsval \<times> adapter" where
  "insert_op env s dat =
     (let toInsert = (case dat of One d \<Rightarrow> [d] | Many ds \<Rightarrow> ds);
          useSequentialIds = (2 \<le> length toInsert)
      in case run_entries (insert_one env useSequentialIds) toInsert
                \<lparr>st = s, sequence = 0, allIdsWereGenerated = True, inserted = [], updated = []\<rparr> of
           (Some e, t) \<Rightarrow> (failure Null (message_or e ''Failed to insert documents'') 500, st t)
         | (None, t) \<Rightarrow>
             (success (insert_response env useSequentialIds t),
              if inserted t \<noteq> [] \<or> updated t \<noteq> []
              then (st t)\<lparr>col := (col (st t))\<lparr>dirty := True\<rparr>\<rparr> else st t))"

subsection \<open>update and updateById\<close>

text \<open>
  The clock is read several times by an update; the model gives the same time \<open>now\<close>
  to every reading of one operation.
\<close>

definition normalizedUpdate :: "jsval \<Rightarrow> jsval res" where
  "normalizedUpdate updateOperations =
     (case get_prop updateOperations ''$set'' of
        Inl e \<Rightarrow> Inl e
      | Inr u \<Rightarrow>
          Inr (if list_ex (\<lambda>op. truthy (prop_of updateOperations op))
                    [''$set'', ''$inc'', ''$push'', ''$pull'', ''$unset'', ''$addToSet'']
               then updateOperations
               else Obj [(''$set'', updateOperations)]))"

text \<open>The body of the loop of \<open>update\<close> for the document at one position.\<close>

definition update_one ::
  "builtins \<Rightarrow> string \<Rightarrow> jsval \<Rightarrow> jsval \<Rightarrow> ref \<Rightarrow> adapter \<times> ref list
     \<Rightarrow> jserror option \<times> adapter \<times> ref list" where
  "update_one B now filters upd r = (\<lambda>(s, done).
     case matchesFilter B (doc_at s r) filters of
       Inl e \<Rightarrow> (Some e, s, done)
     | Inr False \<Rightarrow> (None, s, done)
     | Inr True \<Rightarrow>
         (case applyUpdateToDoc B now (heap s r) upd of
            (Some e, doc') \<Rightarrow> (Some e, s\<lparr>heap := (heap s)(r := doc')\<rparr>, done)
          | (None, doc') \<Rightarrow>
              (None, s\<lparr>heap := (heap s)(r := obj_set doc' ''updatedAt'' (Str now))\<rparr>,
               done @ [r])))"

definition update_response :: "adapter \<Rightarrow> ref list \<Rightarrow> string \<Rightarrow> nat \<Rightarrow> jsval" where
  "update_response s done returnType maxReturn =
     Obj ([(''updatedCount'', Num (int (length done)))]
          @ (if returnType = ''ids'' then
               [(''updatedIds'', Arr (take maxReturn (map (\<lambda>r. field s r ''id'') done)))]
             else if returnType = ''documents'' then
               [(''documents'', Arr (take maxReturn (map (doc_at s) done)))]
             else [])
          @ (if (returnType = ''ids'' \<or> returnType = ''documents'') \<and> maxReturn < length done then
               [(''truncated'', Bool True), (''total'', Num (int (length done))),
                (''maxReturn'', Num (int maxReturn))]
             else []))"

text \<open>
  \<open>LocalAdapter.update(payload)\<close>, the payload being \<open>filters\<close>, \<open>update\<close>, \<open>returnType\<close>
  (\<open>'count'\<close> when absent) and \<open>maxReturn\<close> (50 when absent).
\<close>

definition update_op ::
  "builtins \<Rightarrow> string \<Rightarrow> adapter \<Rightarrow> jsval \<Rightarrow> jsval \<Rightarrow> string \<Rightarrow> nat \<Rightarrow> jsval \<times> adapter" where
  "update_op B now s filters updateOperations returnType maxReturn =
     (case normalizedUpdate updateOperations of
        Inl e \<Rightarrow> (failure Null (message_or e ''Failed to update documents'') 500, s)
      | Inr upd \<Rightarrow>
          (case run_entries (update_one B now (default_filters filters) upd)
                  (data (col s)) (s, []) of
             (Some e, s', done) \<Rightarrow>
               (failure Null (message_or e ''Failed to update documents'') 500, s')
           | (None, s', done) \<Rightarrow>
               if done = [] then (failure Null ''No documents matched the filters'' 404, s')
               else (success (update_response s' done returnType maxReturn),
                     s'\<lparr>col := (col s')\<lparr>dirty := True\<rparr>\<rparr>)))"

text \<open>\<open>col.data.findIndex(d => d.id === id)\<close>\<close>

fun findIndex :: "('a \<Rightarrow> bool) \<Rightarrow> 'a list \<Rightarrow> nat option" where
  "findIndex P [] = None"
| "findIndex P (x # xs) =
     (if P x then Some 0 else (case findIndex P xs of None \<Rightarrow> None | Some i \<Rightarrow> Some (Suc i)))"

text \<open>
  \<open>LocalAdapter.updateById(id, payload)\<close>, the payload being \<open>update\<close> and \<open>returnType\<close>
  (\<open>'document'\<close> when absent).
\<close>

definition updateById_op ::
  "builtins \<Rightarrow> string \<Rightarrow> adapter \<Rightarrow> jsval \<Rightarrow> jsval \<Rightarrow> string \<Rightarrow> jsval \<times> adapter" where
  "updateById_op B now s ident updateOperations returnType =
     (case (case map_get (idIndex (col s)) ident of
              Some i \<Rightarrow> Some i
            | None \<Rightarrow> findIndex (\<lambda>r. strict_eq (field s r ''id'') ident) (data (col s))) of
        None \<Rightarrow> (failure Null ''Document not found'' 404, s)
      | Some docIndex \<Rightarrow>
          if docIndex < length (data (col s)) then
            (case applyUpdateToDoc B now (heap s (data (col s) ! docIndex)) updateOperations of
               (Some e, doc') \<Rightarrow>
                 (failure Null (message_or e ''Failed to update document'') 400,
                  s\<lparr>heap := (heap s)(data (col s) ! docIndex := doc')\<rparr>)
             | (None, doc') \<Rightarrow>
                 (success (Obj ([(''updatedCount'', Num 1), (''updatedId'', ident)]
                                @ (if returnType = ''document'' then [(''document'', Obj doc')]
                                   else []))),
                  s\<lparr>heap := (heap s)(data (col s) ! docIndex := doc'),
                    col := (col s)\<lparr>dirty := True\<rparr>\<rparr>))
          else if truthy updateOperations then
            (failure Null (message_or TypeError ''Failed to update document'') 400, s)
          else
            (success (Obj ([(''updatedCount'', Num 1), (''updatedId'', ident)]
                           @ (if returnType = ''document'' then [(''document'', Undefined)]
                              else []))),
             s\<lparr>col := (col s)\<lparr>dirty := True\<rparr>\<rparr>))"

subsection \<open>delete and deleteById\<close>

text \<open>\<open>idIndex.clear()\<close> and the scan that sets the position of every truthy id.\<close>

definition set_positions :: "adapter \<Rightarrow> (jsval \<times> nat) list \<Rightarrow> (nat \<times> ref) list \<Rightarrow> (jsval \<times> nat) list" where
  "set_positions s m entries_at =
     foldl (\<lambda>acc (i, r). if truthy (field s r ''id'') then map_set acc (field s r ''id'') i else acc)
       m entries_at"

text \<open>
  \<open>LocalAdapter.delete({filters})\<close>. The secondary indexes are not touched.
\<close>

definition delete_op :: "builtins \<Rightarrow> adapter \<Rightarrow> jsval \<Rightarrow> jsval \<times> adapter" where
  "delete_op B s filters =
     (case filter_r (\<lambda>d. matchesFilter B (doc_at s d) (default_filters filters)) (data (col s)) of
        Inl e \<Rightarrow> (failure Null (message_or e ''Failed to delete documents'') 500, s)
      | Inr matching \<Rightarrow>
          (case filter_r (\<lambda>d. not_r (matchesFilter B (doc_at s d) (default_filters filters)))
                  (data (col s)) of
             Inl e \<Rightarrow> (failure Null (message_or e ''Failed to delete documents'') 500, s)
           | Inr kept \<Rightarrow>
               if length (data (col s)) - length kept > 0 then
                 (success (Obj [(''deletedCount'', Num (int (length (data (col s)) - length kept)))]),
                  s\<lparr>col := (col s)\<lparr>data := kept,
                                    idIndex := set_positions s [] (zip [0..<length kept] kept),
                                    dirty := True\<rparr>\<rparr>)
               else
                 (failure Null ''No documents matched the filters'' 404,
                  s\<lparr>col := (col s)\<lparr>data := kept\<rparr>\<rparr>)))"

text \<open>
  \<open>LocalAdapter.deleteById(id)\<close>. The document is spliced out, its entry is removed
  from every secondary index, and the positions of the documents behind it are set
  again in \<open>idIndex\<close>; the positions kept in the secondary indexes are left as they are.
  A position that \<open>idIndex\<close> gives beyond the end of \<open>data\<close> names no document, and
  the removal from an index then throws.
\<close>

definition splice_out :: "nat \<Rightarrow> 'a list \<Rightarrow> 'a list" where
  "splice_out i xs = take i xs @ drop (Suc i) xs"

definition deleteById_op :: "adapter \<Rightarrow> jsval \<Rightarrow> jsval \<times> adapter" where
  "deleteById_op s ident =
     (case map_get (idIndex (col s)) ident of
        None \<Rightarrow> (failure Null ''Document not found'' 404, s)
      | Some docIdx \<Rightarrow>
          let c = col s;
              rest = splice_out docIdx (data c);
              c1 = c\<lparr>data := rest, idIndex := map_delete (idIndex c) ident\<rparr>
          in if docIdx < length (data c) then
               (success (Obj [(''deletedCount'', Num 1), (''deletedId'', ident)]),
                s\<lparr>col := c1\<lparr>indexes :=
                              map (\<lambda>(key, idx).
                                     (key, removeFromIndex idx (heap s (data c ! docIdx)) docIdx))
                                (indexes c),
                            idIndex :=
                              set_positions s (idIndex c1)
                                (zip [docIdx..<length rest] (drop docIdx rest)),
                            dirty := True\<rparr>\<rparr>)
             else if list_ex (\<lambda>(key, idx). index_fields idx \<noteq> []) (indexes c) then
               (failure Null (message_or TypeError ''Failed to delete document by ID'') 500,
                s\<lparr>col := c1\<rparr>)
             else
               (success (Obj [(''deletedCount'', Num 1), (''deletedId'', ident)]),
                s\<lparr>col := c1\<lparr>dirty := True\<rparr>\<rparr>))"

text \<open>
  A set of built-ins to run the model on: the relational operators on numbers alone,
  no regular expressions, no coercions.
\<close>

definition number_builtins :: builtins where
  "number_builtins =
     \<lparr> js_gt = (\<lambda>a b. case (a, b) of (Num x, Num y) \<Rightarrow> x > y | _ \<Rightarrow> False),
       js_ge = (\<lambda>a b. case (a, b) of (Num x, Num y) \<Rightarrow> x \<ge> y | _ \<Rightarrow> False),
       js_lt = (\<lambda>a b. case (a, b) of (Num x, Num y) \<Rightarrow> x < y | _ \<Rightarrow> False),
       js_le = (\<lambda>a b. case (a, b) of (Num x, Num y) \<Rightarrow> x \<le> y | _ \<Rightarrow> False),
       regex_test = (\<lambda>p f a. None),
       rem_coerced = (\<lambda>n d. None),
       add_coerced = (\<lambda>a b. Undefined) \<rparr>"

text \<open>
  A collection to start from, an object that a caller has made, a \<open>find\<close> without
  options, and a clock.
\<close>

definition empty_adapter :: adapter where
  "empty_adapter =
     \<lparr>heap = (\<lambda>_. []),
      col = \<lparr>data = [], dirty = False, idIndex = [], indexes = []\<rparr>,
      queryCache = [], cacheHits = 0\<rparr>"

definition new_object :: "adapter \<Rightarrow> ref \<Rightarrow> (string \<times> jsval) list \<Rightarrow> adapter" where
  "new_object s r obj = s\<lparr>heap := (heap s)(r := obj)\<rparr>"

definition no_options :: find_options where
  "no_options = \<lparr>opt_sort = None, opt_skip = None, opt_limit = None, opt_fields = None\<rparr>"

definition clock :: insert_env where
  "clock = \<lparr>env_now = ''2025-01-01T00:00:00.000Z'', env_prefix = ''m5x2k9'',
            env_random = ''00112233aabbccdd''\<rparr>"

text \<open>The collection after \<open>insert({id: 'a', x: 1})\<close>.\<close>

definition one_document :: adapter where
  "one_document =
     snd (insert_op clock (new_object empty_adapter 0 [(''id'', Str ''a''), (''x'', Num 1)]) (One 0))"

text \<open>
  The collection after \<open>insert([{id: 'x', a: 1}, {id: 'y', a: 2}])\<close> and
  \<open>createIndex({a: 1})\<close>.
\<close>

definition two_indexed_documents :: adapter where
  "two_indexed_documents =
     snd (createIndex_op
            (snd (insert_op clock
                    (new_object (new_object empty_adapter 0 [(''id'', Str ''x''), (''a'', Num 1)])
                       1 [(''id'', Str ''y''), (''a'', Num 2)])
                    (Many [0, 1])))
            (Obj [(''a'', Num 1)]))"

text \<open>
  Twenty-one objects of a caller, the first with an id of its own, for one \<open>insert\<close>.
\<close>

definition batch_of_21 :: adapter where
  "batch_of_21 =
     new_object (foldl (\<lambda>s r. new_object s r [(''n'', Num (int r))]) empty_adapter [1..<21])
       0 [(''id'', Str ''own''), (''n'', Num 0)]"

text \<open>
  A caller's object with the id of the stored document, for a second \<open>insert\<close> at a
  later time.
\<close>

definition upsert_request :: adapter where
  "upsert_request = new_object one_document 1 [(''id'', Str ''a''), (''x'', Num 9), (''y'', Num 2)]"

definition later :: insert_env where
  "later = \<lparr>env_now = ''2025-01-03T00:00:00.000Z'', env_prefix = ''m5x4aa'',
            env_random = ''ffeeddccbbaa9988''\<rparr>"

text \<open>
  The collection after \<open>updateById('a', {$set: {id: 'b'}})\<close>, and a caller's object with
  the id \<open>'b'\<close> for an \<open>insert\<close>.
\<close>

definition id_rewritten :: adapter where
  "id_rewritten =
     snd (updateById_op number_builtins ''2025-01-02T00:00:00.000Z'' one_document (Str ''a'')
            (Obj [(''$set'', Obj [(''id'', Str ''b'')])]) ''id'')"

definition second_request :: adapter where
  "second_request = new_object id_rewritten 1 [(''id'', Str ''b''), (''x'', Num 9)]"

text \<open>The response and the collection after \<open>insert({id: 'b', x: 9})\<close> at a later time.\<close>

definition second_insert :: "jsval \<times> adapter" where
  "second_insert = insert_op later second_request (One 1)"

text \<open>
  Four objects of a caller for one \<open>insert\<close> into the collection that holds the document
  \<open>a\<close>: two without an id, one with the id \<open>'a'\<close>, one with an id of its own.
\<close>

definition mixed_batch :: adapter where
  "mixed_batch =
     new_object (new_object (new_object (new_object one_document
       10 [(''n'', Num 1)]) 11 [(''id'', Str ''a''), (''x'', Num 5)])
       12 [(''id'', Str ''own'')]) 13 [(''n'', Num 2)]"

text \<open>Twenty-one objects of a caller without an id, for one \<open>insert\<close>.\<close>

definition twenty_one_new_objects :: adapter where
  "twenty_one_new_objects =
     foldl (\<lambda>s r. new_object s r [(''n'', Num (int r))]) empty_adapter [0..<21]"

section \<open>What the specification says\<close>

text \<open>
  The steps of the resolver that go down one level (specification 4.1, rule 2): in a
  document by field name, in an array by a segment that parses as an index in bounds.
\<close>

fun descend :: "jsval \<Rightarrow> string list \<Rightarrow> jsval option" where
  "descend cur [] = Some cur"
| "descend (Obj kvs) (s # ss) =
     (case map_of kvs s of None \<Rightarrow> None | Some v \<Rightarrow> descend v ss)"
| "descend (Arr xs) (s # ss) =
     (case in_bounds_index s (length xs) of None \<Rightarrow> None | Some i \<Rightarrow> descend (xs ! i) ss)"
| "descend _ (s # ss) = None"

text \<open>
  What the specification collects from the sub-results of an array traversal: the ones
  that are not absent, an array among them flattened one level.
\<close>

definition gathered :: "jsval list \<Rightarrow> jsval list" where
  "gathered vs =
     concat (map (\<lambda>v. case v of Arr ys \<Rightarrow> ys | _ \<Rightarrow> [v]) (filter (\<lambda>v. v \<noteq> Undefined) vs))"

text \<open>Value comparison as the specification words it: deep structural equality.\<close>

definition value_compare_spec :: "jsval \<Rightarrow> jsval \<Rightarrow> bool" where
  "value_compare_spec a v = (case a of Arr xs \<Rightarrow> v \<in> set xs \<or> a = v | _ \<Rightarrow> a = v)"

definition is_scalar :: "jsval \<Rightarrow> bool" where
  "is_scalar v =
     (case v of Null \<Rightarrow> True | Bool _ \<Rightarrow> True | Num _ \<Rightarrow> True | Str _ \<Rightarrow> True | _ \<Rightarrow> False)"

text \<open>
  A per-field operator map as the specification words it: a plain document whose every
  key begins with \<open>$\<close>.
\<close>

definition operator_map_spec :: "jsval \<Rightarrow> bool" where
  "operator_map_spec v =
     (case v of Obj kvs \<Rightarrow> list_all (\<lambda>(k, _). starts_with_dollar k) kvs | _ \<Rightarrow> False)"

text \<open>
  The test that \<open>matchesFilter\<close> applies to one field: the resolved value \<open>a\<close> against what
  the filter holds for that field.
\<close>

definition field_test :: "builtins \<Rightarrow> jsval \<Rightarrow> jsval \<Rightarrow> bool res" where
  "field_test B a v =
     (case v of
        Obj ops \<Rightarrow> matchesOperators B a v
      | _ \<Rightarrow> Inr (case a of Arr xs \<Rightarrow> js_includes xs v | _ \<Rightarrow> strict_eq a v))"

text \<open>The documents of the collection that match a filter now.\<close>

definition matching :: "builtins \<Rightarrow> adapter \<Rightarrow> jsval \<Rightarrow> ref list res" where
  "matching B s flt = filter_r (\<lambda>r. matchesFilter B (doc_at s r) flt) (data (col s))"

text \<open>
  The invariant of \<open>idIndex\<close> (specification 3 and 8.1): every document that has an id
  is indexed at its position, and \<open>idIndex\<close> has no other entry.
\<close>

definition id_at :: "adapter \<Rightarrow> nat \<Rightarrow> jsval" where
  "id_at s i = field s (data (col s) ! i) ''id''"

definition idIndex_exact :: "adapter \<Rightarrow> bool" where
  "idIndex_exact s =
     (list_all (\<lambda>i. map_get (idIndex (col s)) (id_at s i) = Some i)
        (filter (\<lambda>i. id_at s i \<noteq> Undefined \<and> id_at s i \<noteq> Null) [0..<length (data (col s))])
      \<and> list_all (\<lambda>(k, i). i < length (data (col s)) \<and> id_at s i = k) (idIndex (col s)))"

text \<open>
  The invariants of a secondary index (specification 3): the entries of the index, each
  a tuple of keys with a position, are the documents that have all the indexed
  fields, each once, under its values and at its position.
\<close>

fun index_entries :: "inode \<Rightarrow> (jsval list \<times> nat) list" where
  "index_entries (Positions ps) = map (\<lambda>p. ([], p)) ps"
| "index_entries (Level m) =
     concat (map (\<lambda>(k, child). map (\<lambda>(ks, p). (k # ks, p)) (index_entries child)) m)"

definition expected_entries :: "adapter \<Rightarrow> string list \<Rightarrow> (jsval list \<times> nat) list" where
  "expected_entries s fs =
     map (\<lambda>i. (map (\<lambda>f. field s (data (col s) ! i) f) fs, i))
       (filter (\<lambda>i. list_all (\<lambda>f. field s (data (col s) ! i) f \<noteq> Undefined) fs)
          [0..<length (data (col s))])"

definition index_consistent :: "adapter \<Rightarrow> index \<Rightarrow> bool" where
  "index_consistent s idx =
     (list_all (\<lambda>e. count_list (index_entries (index_map idx)) e = 1)
        (expected_entries s (index_fields idx))
      \<and> list_all (\<lambda>e. e \<in> set (expected_entries s (index_fields idx)))
          (index_entries (index_map idx)))"

definition indexes_consistent :: "adapter \<Rightarrow> bool" where
  "indexes_consistent s = list_all (\<lambda>(key, idx). index_consistent s idx) (indexes (col s))"

text \<open>The id that a batch gives to its \<open>k\<close>-th document without one.\<close>

definition sequential_id :: "insert_env \<Rightarrow> nat \<Rightarrow> string" where
  "sequential_id env k = env_prefix env @ ''_'' @ nat_to_dec k"

text \<open>The query cache has no entry under the key that \<open>applyFilters\<close> makes for a filter.\<close>

definition cache_cold :: "adapter \<Rightarrow> jsval \<Rightarrow> bool" where
  "cache_cold s flt =
     (map_of (queryCache s) (json flt @ nat_to_dec (length (data (col s)))) = None)"

text \<open>
  The ids of the documents of one \<open>insert\<close>. A document comes without an id when its
  field \<open>id\<close> is falsy (absent, \<open>null\<close>, 0, the empty string). The document at position
  \<open>j\<close> of the list is given its own id, as a string, if it comes with one; otherwise, in
  a list of two or more documents (\<open>sequential\<close>), the prefix followed by the number of
  the documents without an id up to and including it; otherwise the random id. It is
  fresh when its id is no key of \<open>idIndex\<close> and not the id given to a document before
  it in the list.
\<close>

definition without_id :: "adapter \<Rightarrow> ref \<Rightarrow> bool" where
  "without_id s d = (\<not> truthy (field s d ''id''))"

definition assigned_id :: "insert_env \<Rightarrow> bool \<Rightarrow> adapter \<Rightarrow> ref list \<Rightarrow> nat \<Rightarrow> string" where
  "assigned_id env sequential s ds j =
     (if \<not> without_id s (ds ! j) then to_string (field s (ds ! j) ''id'')
      else if sequential then
        sequential_id env (length (filter (without_id s) (take (Suc j) ds)))
      else env_random env)"

definition is_fresh :: "insert_env \<Rightarrow> bool \<Rightarrow> adapter \<Rightarrow> ref list \<Rightarrow> nat \<Rightarrow> bool" where
  "is_fresh env sequential s ds j =
     (map_get (idIndex (col s)) (Str (assigned_id env sequential s ds j)) = None
      \<and> list_all (\<lambda>i. assigned_id env sequential s ds i \<noteq> assigned_id env sequential s ds j)
           [0..<j])"

definition fresh_positions :: "insert_env \<Rightarrow> bool \<Rightarrow> adapter \<Rightarrow> ref list \<Rightarrow> nat list" where
  "fresh_positions env sequential s ds =
     filter (is_fresh env sequential s ds) [0..<length ds]"

definition fresh_docs :: "insert_env \<Rightarrow> bool \<Rightarrow> adapter \<Rightarrow> ref list \<Rightarrow> ref list" where
  "fresh_docs env sequential s ds = map (\<lambda>j. ds ! j) (fresh_positions env sequential s ds)"

section \<open>The state of the loop of \<open>insert\<close>\<close>

text \<open>
  For the proofs about the loop of \<open>insert\<close>: the id that the loop computes for the
  next document, the state in which the loop begins, and what holds of the state of
  the loop after the documents \<open>ds\<close>, in terms of the collection \<open>s\<close> in which the
  insert began.
\<close>

definition step_id :: "insert_env \<Rightarrow> bool \<Rightarrow> insert_state \<Rightarrow> ref \<Rightarrow> string" where
  "step_id env u t d =
     (if truthy (field (st t) d ''id'') then to_string (field (st t) d ''id'')
      else if u then sequential_id env (sequence t + 1) else env_random env)"

definition batch_start :: "adapter \<Rightarrow> insert_state" where
  "batch_start s =
     \<lparr>st = s, sequence = 0, allIdsWereGenerated = True, inserted = [], updated = []\<rparr>"

definition batch_state ::
  "insert_env \<Rightarrow> bool \<Rightarrow> adapter \<Rightarrow> ref list \<Rightarrow> insert_state \<Rightarrow> bool" where
  "batch_state env u s ds t \<longleftrightarrow>
     (u \<longrightarrow> sequence t = length (filter (without_id s) ds))
   \<and> allIdsWereGenerated t = list_all (without_id s) ds
   \<and> inserted t = fresh_docs env u s ds
   \<and> data (col (st t)) = data (col s) @ fresh_docs env u s ds
   \<and> length (updated t) + length (fresh_docs env u s ds) = length ds
   \<and> (\<forall>j<length ds. field (st t) (ds ! j) ''id'' = Str (assigned_id env u s ds j))
   \<and> (\<forall>r. r \<notin> set ds \<and> r \<notin> set (data (col s)) \<longrightarrow> heap (st t) r = heap s r)
   \<and> (\<forall>x. (map_get (idIndex (col (st t))) (Str x) = None) =
            (map_get (idIndex (col s)) (Str x) = None
             \<and> (\<forall>j<length ds. assigned_id env u s ds j \<noteq> x)))
   \<and> (\<forall>x i. map_get (idIndex (col (st t))) (Str x) = Some i \<longrightarrow>
            i < length (data (col (st t)))
            \<and> (data (col (st t)) ! i \<in> set ds \<longrightarrow>
                 field (st t) (data (col (st t)) ! i) ''id'' = Str x))"

section \<open>Properties of the path resolver\<close>

lemma walk_descend:
  "descend d pre = Some c \<Longrightarrow> walk d (pre @ rest) = walk c rest"
proof (induction d pre rule: descend.induct)
  case (2 kvs s ss)
  then show ?case by (auto simp: lookup_def split: option.splits)
next
  case (3 xs s ss)
  then show ?case by (auto split: option.splits)
qed auto

lemma collect_sub_results:
  "collect rs = (case sub_results rs of Inl e \<Rightarrow> Inl e | Inr vs \<Rightarrow> Inr (gathered vs))"
proof (induction rs rule: collect.induct)
  case (3 v rs)
  then show ?case
    by (cases v) (auto simp: gathered_def split: sum.splits)
qed (auto simp: gathered_def)

text \<open>
  What the traversal of an array computes. When the resolution of a dotted path
  reaches an array and the next segment is no index in bounds, the remaining segments,
  joined again, are resolved in every element, in order. If one of these resolutions
  throws, the whole resolution throws; otherwise the sub-results that are not absent
  are collected, arrays among them flattened one level, and the collected list is the
  value if it is not empty, the value being absent otherwise.
\<close>

lemma getValue_array_traversal:
  assumes "CHR ''.'' \<in> set path"
    and "split_dot path = pre @ s # post"
    and "descend d pre = Some (Arr xs)"
    and "in_bounds_index s (length xs) = None"
  shows "getValue d path =
     (case sub_results (map (\<lambda>el. getValue el (join_dot (s # post))) xs) of
        Inl e \<Rightarrow> Inl e
      | Inr vs \<Rightarrow> Inr (if gathered vs \<noteq> [] then Arr (gathered vs) else Undefined))"
proof -
  from assms(1,2) have "getValue d path = walk d (pre @ s # post)"
    by (simp add: getValue.simps)
  also from assms(3) have "\<dots> = walk (Arr xs) (s # post)"
    by (rule walk_descend)
  also from assms(4) have "\<dots> =
     (case collect (map (\<lambda>el. getValue el (join_dot (s # post))) xs) of
        Inl e \<Rightarrow> Inl e
      | Inr results \<Rightarrow> Inr (if results \<noteq> [] then Arr results else Undefined))"
    by simp
  also have "\<dots> =
     (case sub_results (map (\<lambda>el. getValue el (join_dot (s # post))) xs) of
        Inl e \<Rightarrow> Inl e
      | Inr vs \<Rightarrow> Inr (if gathered vs \<noteq> [] then Arr (gathered vs) else Undefined))"
    by (simp add: collect_sub_results split: sum.splits)
  finally show ?thesis .
qed

lemma getValue_array_traversal_example:
  "getValue (Obj [(''items'', Arr [Obj [(''tags'', Arr [Str ''a'', Str ''b''])],
                                    Obj [(''sku'', Num 7)],
                                    Obj [(''tags'', Str ''c'')]])]) ''items.tags''
     = Inr (Arr [Str ''a'', Str ''b'', Str ''c''])"
proof -
  let ?xs = "[Obj [(''tags'', Arr [Str ''a'', Str ''b''])], Obj [(''sku'', Num 7)],
              Obj [(''tags'', Str ''c'')]]"
  let ?d = "Obj [(''items'', Arr ?xs)]"
  have 1: "CHR ''.'' \<in> set ''items.tags''" by simp
  have 2: "split_dot ''items.tags'' = [''items''] @ ''tags'' # []" by simp
  have 3: "descend ?d [''items''] = Some (Arr ?xs)" by simp
  have 4: "in_bounds_index ''tags'' (length ?xs) = None"
    by (simp add: in_bounds_index_def parseInt_def is_ws_def is_digit_def)
  show ?thesis
    unfolding getValue_array_traversal [OF 1 2 3 4]
    by (simp add: getValue.simps lookup_def gathered_def)
qed

text \<open>
  C6. The sub-results of the elements are not always collected: an element that is
  \<open>null\<close>, met with one remaining segment, makes the resolution throw. In the document
  \<open>{a: [{b: 1}, null]}\<close> the path \<open>a.b\<close> reaches the array with the segment \<open>b\<close>, which is
  no index; the sub-results are 1 and nothing, so that the resolved value should be
  \<open>[1]\<close>; the code evaluates \<open>null['b']\<close>, a \<open>TypeError\<close>, and a filter on \<open>a.b\<close> throws
  with it. With two remaining segments the same element resolves to nothing and the
  value is collected from the other: the loop over the segments guards \<open>null\<close>, the
  shortcut for a path without a dot does not.
\<close>

theorem getValue_null_element_throws:
  "getValue (Obj [(''a'', Arr [Obj [(''b'', Num 1)], Null])]) ''a.b'' = Inl TypeError
   \<and> matchesFilter number_builtins (Obj [(''a'', Arr [Obj [(''b'', Num 1)], Null])])
       (Obj [(''a.b'', Num 1)]) = Inl TypeError
   \<and> getValue (Obj [(''a'', Arr [Obj [(''b'', Obj [(''c'', Num 1)])], Null])]) ''a.b.c''
       = Inr (Arr [Num 1])"
  by code_simp

section \<open>Properties of the filter evaluator\<close>

lemma no_dollar_logical:
  assumes "\<not> starts_with_dollar k"
  shows "prop_of (Obj [(k, v)]) ''$and'' = Undefined"
    and "prop_of (Obj [(k, v)]) ''$or'' = Undefined"
    and "prop_of (Obj [(k, v)]) ''$nor'' = Undefined"
    and "prop_of (Obj [(k, v)]) ''$not'' = Undefined"
  using assms by (auto simp: starts_with_dollar_def prop_of_def lookup_def)

lemma for_loop_single_stop:
  "for_loop f [x] True = (case f x of Inl e \<Rightarrow> Inl e | Inr Continue \<Rightarrow> Inr True | Inr (Return b) \<Rightarrow> Inr b)"
  by (simp split: sum.splits step.splits)

lemma stop_unless_r_result:
  "(case stop_unless_r r of Inl e \<Rightarrow> Inl e | Inr Continue \<Rightarrow> Inr True | Inr (Return b) \<Rightarrow> Inr b) = r"
  by (cases r) (auto simp: stop_unless_r_def stop_unless_def)

lemma stop_unless_result:
  "(case stop_unless c of Continue \<Rightarrow> Inr True | Return b \<Rightarrow> Inr b) = (Inr c :: bool res)"
  by (auto simp: stop_unless_def)

lemma matchesFilter_single_key:
  assumes "\<not> starts_with_dollar k"
  shows "matchesFilter B d (Obj [(k, v)]) =
     (case getValue d k of Inl e \<Rightarrow> Inl e | Inr a \<Rightarrow> field_test B a v)"
proof (cases "getValue d k")
  case (Inl e)
  with assms show ?thesis
    by (subst matchesFilter.simps) (simp add: no_dollar_logical)
next
  case (Inr a)
  show ?thesis
  proof (cases v)
    case (Obj ops)
    with Inr assms show ?thesis
      by (subst matchesFilter.simps)
         (simp add: no_dollar_logical field_test_def for_loop_single_stop stop_unless_r_result
               del: for_loop.simps)
  qed (use Inr assms in \<open>subst matchesFilter.simps, cases a;
        simp add: no_dollar_logical field_test_def for_loop_single_stop stop_unless_result
             del: for_loop.simps\<close>)+
qed

lemma strict_eq_scalar: "is_scalar v \<Longrightarrow> strict_eq a v = (a = v)"
  by (cases a; cases v) (auto simp: is_scalar_def)

lemma js_includes_scalar: "is_scalar v \<Longrightarrow> js_includes xs v = (v \<in> set xs)"
  by (auto simp: js_includes_def list_ex_iff strict_eq_scalar)

lemma strict_eq_array: "strict_eq a (Arr ys) = False"
  by (cases a) auto

text \<open>
  C3, as the code has it. For a field path \<open>k\<close> and a scalar \<open>v\<close> (null, a boolean, a
  number, a string), the filter \<open>{k: v}\<close> matches a document iff the resolved value is
  an array that contains \<open>v\<close>, or is \<open>v\<close>. An array \<open>v\<close> is compared by identity with
  the stored values, and being another object it matches nothing. A plain object \<open>v\<close>
  is a per-field operator map whatever its keys are.
\<close>

theorem value_compare_by_design:
  assumes "\<not> starts_with_dollar k" and "getValue d k = Inr a"
  shows "(is_scalar v \<longrightarrow> matchesFilter B d (Obj [(k, v)]) = Inr (value_compare_spec a v))
       \<and> (\<forall>ys. v = Arr ys \<longrightarrow> matchesFilter B d (Obj [(k, v)]) = Inr False)
       \<and> (\<forall>ops. v = Obj ops \<longrightarrow> matchesFilter B d (Obj [(k, v)]) = matchesOperators B a v)"
proof -
  have m: "matchesFilter B d (Obj [(k, v)]) = field_test B a v"
    using matchesFilter_single_key [OF assms(1), of B d v] assms(2) by simp
  have "field_test B a v = Inr (value_compare_spec a v)" if "is_scalar v"
  proof (cases a)
    case (Arr xs)
    with that show ?thesis
      by (cases v) (auto simp: field_test_def value_compare_spec_def js_includes_scalar is_scalar_def)
  qed (use that in \<open>cases v; auto simp: field_test_def value_compare_spec_def is_scalar_def\<close>)+
  moreover have "field_test B a (Arr ys) = Inr False" for ys
    by (cases a) (auto simp: field_test_def js_includes_def list_ex_iff strict_eq_array)
  moreover have "field_test B a (Obj ops) = matchesOperators B a (Obj ops)" for ops
    by (simp add: field_test_def)
  ultimately show ?thesis using m by auto
qed

theorem value_compare_by_design_witness:
  "matchesFilter number_builtins (Obj [(''tags'', Arr [Str ''vip'', Str ''new''])]) (Obj [(''tags'', Str ''vip'')]) = Inr True
   \<and> matchesFilter number_builtins (Obj [(''tags'', Arr [Str ''vip'', Str ''new''])]) (Obj [(''tags'', Arr [Str ''vip'', Str ''new''])]) = Inr False
   \<and> matchesFilter number_builtins (Obj [(''tags'', Arr [Str ''vip'', Str ''new''])]) (Obj [(''tags'', Obj [(''a'', Num 1)])]) = Inr True"
proof -
  let ?d = "Obj [(''tags'', Arr [Str ''vip'', Str ''new''])]"
  have 1: "\<not> starts_with_dollar ''tags''" by (simp add: starts_with_dollar_def)
  have 2: "getValue ?d ''tags'' = Inr (Arr [Str ''vip'', Str ''new''])"
    by (simp add: getValue.simps lookup_def)
  have s: "is_scalar (Str ''vip'')" by (simp add: is_scalar_def)
  have o: "matchesOperators number_builtins (Arr [Str ''vip'', Str ''new'']) (Obj [(''a'', Num 1)]) = Inr True"
    by (simp add: matchesOperators.simps operator_present_def)
  from value_compare_by_design [OF 1 2, of "Str ''vip''" number_builtins] s
  have "matchesFilter number_builtins ?d (Obj [(''tags'', Str ''vip'')]) = Inr True"
    by (simp add: value_compare_spec_def)
  moreover from value_compare_by_design [OF 1 2, of "Arr [Str ''vip'', Str ''new'']" number_builtins]
  have "matchesFilter number_builtins ?d (Obj [(''tags'', Arr [Str ''vip'', Str ''new''])]) = Inr False"
    by simp
  moreover from value_compare_by_design [OF 1 2, of "Obj [(''a'', Num 1)]" number_builtins] o
  have "matchesFilter number_builtins ?d (Obj [(''tags'', Obj [(''a'', Num 1)])]) = Inr True"
    by simp
  ultimately show ?thesis by simp
qed

text \<open>
  C3 as stated fails: \<open>{a: 1}\<close> is no operator map of the specification, the field
  \<open>k\<close> of the document holds \<open>{a: 2}\<close>, which is not structurally equal to it, and
  the filter \<open>{k: {a: 1}}\<close> matches all the same: \<open>a\<close> is an unknown operator, skipped.
\<close>

theorem value_compare_counterexample:
  "\<not> operator_map_spec (Obj [(''a'', Num 1)])
   \<and> getValue (Obj [(''k'', Obj [(''a'', Num 2)])]) ''k'' = Inr (Obj [(''a'', Num 2)])
   \<and> \<not> value_compare_spec (Obj [(''a'', Num 2)]) (Obj [(''a'', Num 1)])
   \<and> matchesFilter number_builtins (Obj [(''k'', Obj [(''a'', Num 2)])]) (Obj [(''k'', Obj [(''a'', Num 1)])]) = Inr True"
  by code_simp

lemma matchesOperators_absent_single:
  "matchesOperators B Undefined (Obj [(op, expected)]) =
     Inr (op = ''$options'' \<or> op = ''$ne'' \<or> (op = ''$exists'' \<and> expected \<noteq> Bool True))"
  by (subst matchesOperators.simps) (auto simp: operator_absent_def)

text \<open>
  What a map of one operator does when the field resolves to nothing: it matches iff
  the operator is \<open>$ne\<close>, or \<open>$exists\<close> with a payload other than \<open>true\<close>, or the entry
  is \<open>$options\<close>, which is skipped. Every other operator, known or not, fails.
\<close>

lemma absent_field_single_operator:
  assumes "\<not> starts_with_dollar k" and "getValue d k = Inr Undefined"
  shows "matchesFilter B d (Obj [(k, Obj [(op, expected)])]) =
           Inr (op = ''$options'' \<or> op = ''$ne'' \<or> (op = ''$exists'' \<and> expected \<noteq> Bool True))"
  using matchesFilter_single_key [OF assms(1), of B d "Obj [(op, expected)]"] assms(2)
    matchesOperators_absent_single [of B op expected]
  by (simp add: field_test_def)

lemma absent_field_single_operator_example:
  "matchesFilter number_builtins (Obj [(''name'', Str ''Ann'')]) (Obj [(''age'', Obj [(''$ne'', Num 3)])]) = Inr True
   \<and> matchesFilter number_builtins (Obj [(''name'', Str ''Ann'')]) (Obj [(''age'', Obj [(''$exists'', Bool False)])]) = Inr True
   \<and> matchesFilter number_builtins (Obj [(''name'', Str ''Ann'')]) (Obj [(''age'', Obj [(''$exists'', Bool True)])]) = Inr False
   \<and> matchesFilter number_builtins (Obj [(''name'', Str ''Ann'')]) (Obj [(''age'', Obj [(''$lt'', Num 3)])]) = Inr False"
proof -
  let ?d = "Obj [(''name'', Str ''Ann'')]"
  have 1: "\<not> starts_with_dollar ''age''" by (simp add: starts_with_dollar_def)
  have 2: "getValue ?d ''age'' = Inr Undefined" by (simp add: getValue.simps lookup_def)
  show ?thesis
    using absent_field_single_operator [OF 1 2, of number_builtins "''$ne''" "Num 3"]
      absent_field_single_operator [OF 1 2, of number_builtins "''$exists''" "Bool False"]
      absent_field_single_operator [OF 1 2, of number_builtins "''$exists''" "Bool True"]
      absent_field_single_operator [OF 1 2, of number_builtins "''$lt''" "Num 3"]
    by simp
qed

text \<open>
  C7. The payload of \<open>$exists\<close> is not checked. The document \<open>{name: 'Ann'}\<close> has no
  field \<open>age\<close>, and the maps \<open>{$exists: 1}\<close>, \<open>{$exists: 0}\<close> and \<open>{$exists: 'yes'}\<close> on
  \<open>age\<close> match it, though none of them is \<open>{$exists: false}\<close> or a \<open>$ne\<close>: the two tests
  of \<open>$exists\<close> compare the payload with \<open>true\<close> and with \<open>false\<close>, and any other payload
  falls through to the end of the loop, which returns \<open>true\<close>. The payload of \<open>$mod\<close> is
  checked: a malformed one is a non-match.
\<close>

theorem exists_payload_not_checked:
  "getValue (Obj [(''name'', Str ''Ann'')]) ''age'' = Inr Undefined
   \<and> matchesFilter number_builtins (Obj [(''name'', Str ''Ann'')])
        (Obj [(''age'', Obj [(''$exists'', Num 1)])]) = Inr True
   \<and> matchesFilter number_builtins (Obj [(''name'', Str ''Ann'')])
        (Obj [(''age'', Obj [(''$exists'', Num 0)])]) = Inr True
   \<and> matchesFilter number_builtins (Obj [(''name'', Str ''Ann'')])
        (Obj [(''age'', Obj [(''$exists'', Str ''yes'')])]) = Inr True
   \<and> matchesFilter number_builtins (Obj [(''name'', Str ''Ann''), (''age'', Num 4)])
        (Obj [(''age'', Obj [(''$mod'', Num 2)])]) = Inr False"
  by code_simp

lemma every_r_find:
  "every_r f xs =
     (case find (\<lambda>r. r \<noteq> Inr True) (map f xs) of
        None \<Rightarrow> Inr True | Some (Inl e) \<Rightarrow> Inl e | Some (Inr b) \<Rightarrow> Inr False)"
  unfolding every_r_def
  by (induction xs) (auto split: sum.splits)

lemma some_r_find:
  "some_r f xs =
     (case find (\<lambda>r. r \<noteq> Inr False) (map f xs) of
        None \<Rightarrow> Inr False | Some (Inl e) \<Rightarrow> Inl e | Some (Inr b) \<Rightarrow> Inr True)"
  unfolding some_r_def
  by (induction xs) (auto split: sum.splits)

lemma logical_truthy:
  assumes "truthy (prop_of F k)" and "hd k = CHR ''$''"
  shows "truthy F"
proof (cases F)
  case (Str s)
  from assms(2) have "k \<noteq> ''length''" by auto
  with Str assms array_index_dollar [OF assms(2)] show ?thesis by (simp add: prop_of_def)
qed (use assms in \<open>auto simp: prop_of_def\<close>)

lemma matchesFilter_and_clause:
  assumes "truthy (prop_of F ''$and'')"
  shows "matchesFilter B d F =
       (case prop_of F ''$and'' of
          Arr fs \<Rightarrow>
            (case find (\<lambda>r. r \<noteq> Inr True) (map (matchesFilter B d) fs) of
               None \<Rightarrow> Inr True | Some (Inl e) \<Rightarrow> Inl e | Some (Inr b) \<Rightarrow> Inr False)
        | _ \<Rightarrow> Inl TypeError)"
proof -
  from assms have "truthy F" by (rule logical_truthy) simp
  with assms show ?thesis
    by (subst matchesFilter.simps) (simp add: every_r_find split: jsval.splits)
qed

lemma matchesFilter_or_clause:
  assumes "\<not> truthy (prop_of F ''$and'')" and "truthy (prop_of F ''$or'')"
  shows "matchesFilter B d F =
       (case prop_of F ''$or'' of
          Arr fs \<Rightarrow>
            (case find (\<lambda>r. r \<noteq> Inr False) (map (matchesFilter B d) fs) of
               None \<Rightarrow> Inr False | Some (Inl e) \<Rightarrow> Inl e | Some (Inr b) \<Rightarrow> Inr True)
        | _ \<Rightarrow> Inl TypeError)"
proof -
  from assms(2) have "truthy F" by (rule logical_truthy) simp
  with assms show ?thesis
    by (subst matchesFilter.simps) (simp add: some_r_find split: jsval.splits)
qed

lemma matchesFilter_nor_clause:
  assumes "\<not> truthy (prop_of F ''$and'')" and "\<not> truthy (prop_of F ''$or'')"
    and "truthy (prop_of F ''$nor'')"
  shows "matchesFilter B d F =
       (case prop_of F ''$nor'' of
          Arr fs \<Rightarrow>
            (case find (\<lambda>r. r \<noteq> Inr False) (map (matchesFilter B d) fs) of
               None \<Rightarrow> Inr True | Some (Inl e) \<Rightarrow> Inl e | Some (Inr b) \<Rightarrow> Inr False)
        | _ \<Rightarrow> Inl TypeError)"
proof -
  from assms(3) have "truthy F" by (rule logical_truthy) simp
  with assms show ?thesis
    by (subst matchesFilter.simps)
       (simp add: some_r_find not_r_def split: jsval.splits option.splits sum.splits)
qed

lemma matchesFilter_not_clause:
  assumes "\<not> truthy (prop_of F ''$and'')" and "\<not> truthy (prop_of F ''$or'')"
    and "\<not> truthy (prop_of F ''$nor'')" and "truthy (prop_of F ''$not'')"
  shows "matchesFilter B d F =
       (case matchesFilter B d (prop_of F ''$not'') of Inl e \<Rightarrow> Inl e | Inr b \<Rightarrow> Inr (\<not> b))"
proof -
  from assms(4) have "truthy F" by (rule logical_truthy) simp
  with assms show ?thesis
    by (subst matchesFilter.simps) (simp add: not_r_def)
qed

lemma matchesFilter_other_keys:
  assumes "truthy (prop_of F ''$and'') \<or> truthy (prop_of F ''$or'')
           \<or> truthy (prop_of F ''$nor'') \<or> truthy (prop_of F ''$not'')"
    and "prop_of G ''$and'' = prop_of F ''$and''" and "prop_of G ''$or'' = prop_of F ''$or''"
    and "prop_of G ''$nor'' = prop_of F ''$nor''" and "prop_of G ''$not'' = prop_of F ''$not''"
  shows "matchesFilter B d G = matchesFilter B d F"
proof -
  consider (a) "truthy (prop_of F ''$and'')"
    | (b) "\<not> truthy (prop_of F ''$and'')" "truthy (prop_of F ''$or'')"
    | (c) "\<not> truthy (prop_of F ''$and'')" "\<not> truthy (prop_of F ''$or'')" "truthy (prop_of F ''$nor'')"
    | (d) "\<not> truthy (prop_of F ''$and'')" "\<not> truthy (prop_of F ''$or'')"
          "\<not> truthy (prop_of F ''$nor'')" "truthy (prop_of F ''$not'')"
    using assms(1) by blast
  then show ?thesis
  proof cases
    case a
    then show ?thesis
      using matchesFilter_and_clause [of F B d] matchesFilter_and_clause [of G B d] assms(2)
      by simp
  next
    case b
    then show ?thesis
      using matchesFilter_or_clause [of F B d] matchesFilter_or_clause [of G B d] assms(2,3)
      by simp
  next
    case c
    then show ?thesis
      using matchesFilter_nor_clause [of F B d] matchesFilter_nor_clause [of G B d] assms(2,3,4)
      by simp
  next
    case d
    then show ?thesis
      using matchesFilter_not_clause [of F B d] matchesFilter_not_clause [of G B d] assms(2,3,4,5)
      by simp
  qed
qed

text \<open>
  C10, as the code has it. The four logical operators are looked at in the order
  \<open>$and\<close>, \<open>$or\<close>, \<open>$nor\<close>, \<open>$not\<close>, and the first that holds a truthy value decides
  alone. For \<open>$and\<close>: the sub-filters of the list are evaluated in order up to the
  first that does not match or throws; the result is a match if there is none, no match
  if that one does not match, its exception if it throws. For \<open>$or\<close>: up to the first
  that matches or throws; for \<open>$nor\<close> the negation of this. For \<open>$not\<close>, the negation of
  the match of its sub-filter. A value that is truthy and no list throws a
  \<open>TypeError\<close>. No other key of the filter is looked at: two filters that hold the same
  values under the four operators, one of them truthy, give the same result.
\<close>

theorem logical_operator_precedence:
  "(truthy (prop_of F ''$and'') \<longrightarrow>
      matchesFilter B d F =
        (case prop_of F ''$and'' of
           Arr fs \<Rightarrow>
             (case find (\<lambda>r. r \<noteq> Inr True) (map (matchesFilter B d) fs) of
                None \<Rightarrow> Inr True | Some (Inl e) \<Rightarrow> Inl e | Some (Inr b) \<Rightarrow> Inr False)
         | _ \<Rightarrow> Inl TypeError))
   \<and> (\<not> truthy (prop_of F ''$and'') \<and> truthy (prop_of F ''$or'') \<longrightarrow>
      matchesFilter B d F =
        (case prop_of F ''$or'' of
           Arr fs \<Rightarrow>
             (case find (\<lambda>r. r \<noteq> Inr False) (map (matchesFilter B d) fs) of
                None \<Rightarrow> Inr False | Some (Inl e) \<Rightarrow> Inl e | Some (Inr b) \<Rightarrow> Inr True)
         | _ \<Rightarrow> Inl TypeError))
   \<and> (\<not> truthy (prop_of F ''$and'') \<and> \<not> truthy (prop_of F ''$or'')
        \<and> truthy (prop_of F ''$nor'') \<longrightarrow>
      matchesFilter B d F =
        (case prop_of F ''$nor'' of
           Arr fs \<Rightarrow>
             (case find (\<lambda>r. r \<noteq> Inr False) (map (matchesFilter B d) fs) of
                None \<Rightarrow> Inr True | Some (Inl e) \<Rightarrow> Inl e | Some (Inr b) \<Rightarrow> Inr False)
         | _ \<Rightarrow> Inl TypeError))
   \<and> (\<not> truthy (prop_of F ''$and'') \<and> \<not> truthy (prop_of F ''$or'')
        \<and> \<not> truthy (prop_of F ''$nor'') \<and> truthy (prop_of F ''$not'') \<longrightarrow>
      matchesFilter B d F =
        (case matchesFilter B d (prop_of F ''$not'') of Inl e \<Rightarrow> Inl e | Inr b \<Rightarrow> Inr (\<not> b)))
   \<and> (\<forall>G. (truthy (prop_of F ''$and'') \<or> truthy (prop_of F ''$or'')
             \<or> truthy (prop_of F ''$nor'') \<or> truthy (prop_of F ''$not''))
            \<and> prop_of G ''$and'' = prop_of F ''$and'' \<and> prop_of G ''$or'' = prop_of F ''$or''
            \<and> prop_of G ''$nor'' = prop_of F ''$nor'' \<and> prop_of G ''$not'' = prop_of F ''$not''
          \<longrightarrow> matchesFilter B d G = matchesFilter B d F)"
  using matchesFilter_and_clause [of F B d] matchesFilter_or_clause [of F B d]
    matchesFilter_nor_clause [of F B d] matchesFilter_not_clause [of F B d]
    matchesFilter_other_keys [of F _ B d]
  by blast


theorem logical_operator_precedence_witness:
  "matchesFilter number_builtins (Obj [(''age'', Num 30), (''vip'', Bool False)])
      (Obj [(''$and'', Arr [Obj [(''age'', Num 30)], Obj [(''age'', Num 31)]]), (''vip'', Bool False)])
      = Inr False
   \<and> matchesFilter number_builtins (Obj [(''age'', Num 30), (''vip'', Bool False)])
      (Obj [(''vip'', Bool True), (''$or'', Arr [Obj [(''age'', Num 31)], Obj [(''age'', Num 30)]])])
      = Inr True
   \<and> matchesFilter number_builtins (Obj [(''age'', Num 30), (''vip'', Bool False)])
      (Obj [(''$nor'', Arr [Obj [(''age'', Num 31)]]), (''vip'', Bool True)]) = Inr True
   \<and> matchesFilter number_builtins (Obj [(''age'', Num 30), (''vip'', Bool False)])
      (Obj [(''$not'', Obj [(''age'', Num 30)]), (''vip'', Bool False)]) = Inr False
   \<and> matchesFilter number_builtins (Obj [(''age'', Num 30), (''vip'', Bool False)])
      (Obj [(''$and'', Num 1), (''vip'', Bool False)]) = Inl TypeError"
proof -
  let ?d = "Obj [(''age'', Num 30), (''vip'', Bool False)]"
  let ?B = number_builtins
  let ?F1 = "Obj [(''$and'', Arr [Obj [(''age'', Num 30)], Obj [(''age'', Num 31)]]), (''vip'', Bool False)]"
  let ?F2 = "Obj [(''vip'', Bool True), (''$or'', Arr [Obj [(''age'', Num 31)], Obj [(''age'', Num 30)]])]"
  let ?F3 = "Obj [(''$nor'', Arr [Obj [(''age'', Num 31)]]), (''vip'', Bool True)]"
  let ?F4 = "Obj [(''$not'', Obj [(''age'', Num 30)]), (''vip'', Bool False)]"
  let ?F5 = "Obj [(''$and'', Num 1), (''vip'', Bool False)]"
  have yes: "matchesFilter ?B ?d (Obj [(''age'', Num 30)]) = Inr True" by code_simp
  have no: "matchesFilter ?B ?d (Obj [(''age'', Num 31)]) = Inr False" by code_simp
  have h1: "truthy (prop_of ?F1 ''$and'')" by code_simp
  have p1: "prop_of ?F1 ''$and'' = Arr [Obj [(''age'', Num 30)], Obj [(''age'', Num 31)]]" by code_simp
  have h2: "\<not> truthy (prop_of ?F2 ''$and'') \<and> truthy (prop_of ?F2 ''$or'')" by code_simp
  have p2: "prop_of ?F2 ''$or'' = Arr [Obj [(''age'', Num 31)], Obj [(''age'', Num 30)]]" by code_simp
  have h3: "\<not> truthy (prop_of ?F3 ''$and'') \<and> \<not> truthy (prop_of ?F3 ''$or'')
            \<and> truthy (prop_of ?F3 ''$nor'')" by code_simp
  have p3: "prop_of ?F3 ''$nor'' = Arr [Obj [(''age'', Num 31)]]" by code_simp
  have h4: "\<not> truthy (prop_of ?F4 ''$and'') \<and> \<not> truthy (prop_of ?F4 ''$or'')
            \<and> \<not> truthy (prop_of ?F4 ''$nor'') \<and> truthy (prop_of ?F4 ''$not'')" by code_simp
  have p4: "prop_of ?F4 ''$not'' = Obj [(''age'', Num 30)]" by code_simp
  have h5: "truthy (prop_of ?F5 ''$and'')" by code_simp
  have p5: "prop_of ?F5 ''$and'' = Num 1" by code_simp
  from logical_operator_precedence [of ?F1 ?B ?d, THEN conjunct1, THEN mp, OF h1]
  have r1: "matchesFilter ?B ?d ?F1 = Inr False" by (simp add: p1 yes no)
  from logical_operator_precedence [of ?F2 ?B ?d, THEN conjunct2, THEN conjunct1, THEN mp, OF h2]
  have r2: "matchesFilter ?B ?d ?F2 = Inr True" by (simp add: p2 yes no)
  from logical_operator_precedence [of ?F3 ?B ?d, THEN conjunct2, THEN conjunct2, THEN conjunct1,
         THEN mp, OF h3]
  have r3: "matchesFilter ?B ?d ?F3 = Inr True" by (simp add: p3 yes no)
  from logical_operator_precedence [of ?F4 ?B ?d, THEN conjunct2, THEN conjunct2, THEN conjunct2,
         THEN conjunct1, THEN mp, OF h4]
  have r4: "matchesFilter ?B ?d ?F4 = Inr False" by (simp add: p4 yes no)
  from logical_operator_precedence [of ?F5 ?B ?d, THEN conjunct1, THEN mp, OF h5]
  have r5: "matchesFilter ?B ?d ?F5 = Inl TypeError" by (simp add: p5)
  from r1 r2 r3 r4 r5 show ?thesis by (intro conjI)
qed

text \<open>
  C10 as stated fails for a logical operator that holds a falsy value: the filter
  \<open>{$and: 0, x: 2}\<close> has the key \<open>$and\<close>, and is decided by the field \<open>x\<close>.
\<close>

theorem logical_operator_counterexample:
  "map_of [(''$and'', Num 0), (''x'', Num 2)] ''$and'' = Some (Num 0)
   \<and> matchesFilter number_builtins (Obj [(''x'', Num 2)]) (Obj [(''$and'', Num 0), (''x'', Num 2)]) = Inr True
   \<and> matchesFilter number_builtins (Obj [(''x'', Num 1)]) (Obj [(''$and'', Num 0), (''x'', Num 2)]) = Inr False"
  by code_simp

section \<open>Properties of the collection store\<close>

text \<open>
  C1. The cache is not invalidated by a write. After \<open>insert({id: 'a', x: 1})\<close>,
  \<open>find({x: 1})\<close> and \<open>update({x: 1}, {$set: {x: 2}})\<close>, no document matches \<open>{x: 1}\<close>;
  yet \<open>find({x: 1})\<close> succeeds with the document (whose \<open>x\<close> is now 2) that the entry
  made before the update holds, and \<open>count({x: 1})\<close> is 1.
\<close>

theorem query_cache_survives_update:
  "(let s1 = snd (find_op number_builtins one_document (Obj [(''x'', Num 1)]) no_options);
        s2 = snd (update_op number_builtins ''2025-01-02T00:00:00.000Z'' s1 (Obj [(''x'', Num 1)])
                    (Obj [(''$set'', Obj [(''x'', Num 2)])]) ''count'' 50)
    in matching number_builtins s2 (Obj [(''x'', Num 1)]) = Inr []
     \<and> fst (find_op number_builtins s2 (Obj [(''x'', Num 1)]) no_options) =
         Obj [(''success'', Bool True),
              (''data'', Arr [Obj [(''id'', Str ''a''), (''x'', Num 2),
                                   (''createdAt'', Str ''2025-01-01T00:00:00.000Z''),
                                   (''updatedAt'', Str ''2025-01-02T00:00:00.000Z'')]]),
              (''total'', Num 1), (''error'', Null)]
     \<and> fst (count_op number_builtins s2 (Obj [(''x'', Num 1)])) = success (Num 1))"
  by code_simp

text \<open>
  C2. A delete leaves the secondary indexes stale. With the documents \<open>x\<close> and \<open>y\<close>
  indexed on \<open>a\<close> at the positions 0 and 1, the index is consistent; after
  \<open>deleteById('x')\<close> the index still has \<open>y\<close> at position 1, where no document is; after
  \<open>delete({a: 1})\<close> it has not changed at all.
\<close>

theorem secondary_index_stale_after_delete:
  "indexes_consistent two_indexed_documents
   \<and> fst (deleteById_op two_indexed_documents (Str ''x'')) =
       success (Obj [(''deletedCount'', Num 1), (''deletedId'', Str ''x'')])
   \<and> \<not> indexes_consistent (snd (deleteById_op two_indexed_documents (Str ''x'')))
   \<and> fst (delete_op number_builtins two_indexed_documents (Obj [(''a'', Num 1)])) =
       success (Obj [(''deletedCount'', Num 1)])
   \<and> \<not> indexes_consistent (snd (delete_op number_builtins two_indexed_documents (Obj [(''a'', Num 1)])))
   \<and> indexes (col (snd (delete_op number_builtins two_indexed_documents (Obj [(''a'', Num 1)]))))
       = indexes (col two_indexed_documents)"
  by code_simp

text \<open>
  C4. An update that writes the field \<open>id\<close> leaves \<open>idIndex\<close> as it was. After
  \<open>insert({id: 'a', x: 1})\<close> the index is exact; \<open>updateById('a', {$set: {id: 'b'}})\<close>
  succeeds, and \<open>idIndex\<close> still maps \<open>'a'\<close> to the position of a document whose id
  is \<open>'b'\<close>.
\<close>

theorem idIndex_stale_after_update_of_id:
  "idIndex_exact one_document
   \<and> fst (updateById_op number_builtins ''2025-01-02T00:00:00.000Z'' one_document (Str ''a'')
            (Obj [(''$set'', Obj [(''id'', Str ''b'')])]) ''id'')
       = success (Obj [(''updatedCount'', Num 1), (''updatedId'', Str ''a'')])
   \<and> \<not> idIndex_exact
         (snd (updateById_op number_builtins ''2025-01-02T00:00:00.000Z'' one_document (Str ''a'')
                 (Obj [(''$set'', Obj [(''id'', Str ''b'')])]) ''id''))
   \<and> idIndex (col (snd (updateById_op number_builtins ''2025-01-02T00:00:00.000Z'' one_document
                          (Str ''a'') (Obj [(''$set'', Obj [(''id'', Str ''b'')])]) ''id'')))
       = [(Str ''a'', 0)]"
  by code_simp

lemma filter_r_all_true:
  "(\<And>x. x \<in> set xs \<Longrightarrow> f x = Inr True) \<Longrightarrow> filter_r f xs = Inr xs"
  by (induction xs) auto

lemma matchesFilter_falsy: "\<not> truthy flt \<Longrightarrow> matchesFilter B d flt = Inr True"
  by (subst matchesFilter.simps) simp

lemma matchesFilter_no_keys:
  assumes "truthy flt" and "typeof_object flt" and "no_keys flt"
  shows "matchesFilter B d flt = Inr True"
proof (cases flt)
  case (Obj kvs)
  with assms(3) have "kvs = []" by (simp add: no_keys_def)
  with Obj show ?thesis
    by (subst matchesFilter.simps) (simp add: prop_of_def lookup_def)
next
  case (Arr xs)
  with assms(3) have "xs = []" by (simp add: no_keys_def index_keys_def)
  with Arr show ?thesis
    by (subst matchesFilter.simps) (simp add: prop_of_def array_index_dollar index_keys_def)
qed (use assms in auto)

lemma applyFilters_no_match:
  assumes obj: "\<not> truthy flt \<or> typeof_object flt"
    and none: "matching B s flt = Inr []"
    and cold: "cache_cold s flt"
  shows "fst (applyFilters B s (data (col s)) flt) = Inr []"
proof (cases "\<not> truthy flt \<or> no_keys flt")
  case True
  then have "\<And>r. matchesFilter B (doc_at s r) flt = Inr True"
    using obj matchesFilter_falsy matchesFilter_no_keys by blast
  then have "matching B s flt = Inr (data (col s))"
    unfolding matching_def by (intro filter_r_all_true) simp
  with none have "data (col s) = []" by simp
  with True show ?thesis by (auto simp: applyFilters_def)
next
  case False
  with none cold show ?thesis
    by (simp add: applyFilters_def matching_def cache_cold_def Let_def)
qed

lemma selectFields_empty: "fst (selectFields s [] projection) = Inr []"
  by (simp add: selectFields_def)

lemma pipeline_empty:
  assumes "skip_stage options [] = Inr []" and "limit_stage options [] = Inr []"
  shows "fst (pipeline B s options []) = Inr []"
  using assms
  by (simp add: pipeline_def sort_stage_def sortResults_def fields_stage_def selectFields_empty
           split: option.splits)

text \<open>
  Where the two envelopes of an empty result are returned. Let the filter be an object
  that passes the validation of \<open>find\<close>, let no document of the collection match it (and
  its evaluation throw nothing), let the query cache hold no entry under its key, and
  let the options pass the checks of \<open>find\<close>. Then \<open>find\<close> returns the failure envelope
  with an empty list and code 404, and \<open>count\<close> returns the success envelope with 0.
\<close>

lemma empty_result_envelopes:
  assumes obj: "\<not> truthy (default_filters filters) \<or> typeof_object (default_filters filters)"
    and valid: "validateFilter (default_filters filters) = Inr ()"
    and none: "matching B s (default_filters filters) = Inr []"
    and cold: "cache_cold s (default_filters filters)"
    and skip: "skip_stage options [] = Inr []"
    and limit: "limit_stage options [] = Inr []"
  shows "fst (find_op B s filters options) =
           Obj [(''success'', Bool False), (''data'', Arr []), (''total'', Num 0),
                (''error'', Obj [(''message'', Str ''No documents found matching the criteria''),
                                 (''code'', Num 404)])]
       \<and> fst (count_op B s filters) =
           Obj [(''success'', Bool True), (''data'', Num 0), (''error'', Null)]"
proof -
  let ?F = "default_filters filters"
  from applyFilters_no_match [OF obj none cold]
  obtain s1 where a: "applyFilters B s (data (col s)) ?F = (Inr [], s1)"
    by (cases "applyFilters B s (data (col s)) ?F") auto
  from pipeline_empty [OF skip limit, of B s1]
  obtain s2 where p: "pipeline B s1 options [] = (Inr [], s2)"
    by (cases "pipeline B s1 options []") auto
  from obj valid a p have "fst (find_op B s filters options) =
      find_failure ''No documents found matching the criteria'' 404"
    by (auto simp: find_op_def)
  moreover have "fst (count_op B s filters) = success (Num 0)"
  proof (cases "\<not> truthy ?F \<or> no_keys ?F")
    case True
    then have "\<And>r. matchesFilter B (doc_at s r) ?F = Inr True"
      using obj matchesFilter_falsy matchesFilter_no_keys by blast
    then have "matching B s ?F = Inr (data (col s))"
      unfolding matching_def by (intro filter_r_all_true) simp
    with none have "data (col s) = []" by simp
    with True obj show ?thesis by (auto simp: count_op_def engine_count_def)
  next
    case False
    with obj a show ?thesis by (auto simp: count_op_def engine_count_def)
  qed
  ultimately show ?thesis by (simp add: find_failure_def success_def)
qed

lemma empty_result_envelopes_example:
  "fst (find_op number_builtins one_document (Obj [(''x'', Num 5)]) no_options) =
           Obj [(''success'', Bool False), (''data'', Arr []), (''total'', Num 0),
                (''error'', Obj [(''message'', Str ''No documents found matching the criteria''),
                                 (''code'', Num 404)])]
       \<and> fst (count_op number_builtins one_document (Obj [(''x'', Num 5)])) =
           Obj [(''success'', Bool True), (''data'', Num 0), (''error'', Null)]"
proof -
  let ?f = "Obj [(''x'', Num 5)]"
  have 1: "\<not> truthy (default_filters ?f) \<or> typeof_object (default_filters ?f)" by code_simp
  have 2: "validateFilter (default_filters ?f) = Inr ()" by code_simp
  have 3: "matching number_builtins one_document (default_filters ?f) = Inr []" by code_simp
  have 4: "cache_cold one_document (default_filters ?f)" by code_simp
  have 5: "skip_stage no_options [] = Inr []" by code_simp
  have 6: "limit_stage no_options [] = Inr []" by code_simp
  from empty_result_envelopes [OF 1 2 3 4 5 6] show ?thesis .
qed

text \<open>
  C8. A \<open>find\<close> whose filter matches no document does not always return the envelope
  with code 404: the list of operators against which \<open>find\<close> validates its filter
  lacks \<open>$nor\<close> and \<open>$mod\<close>, which the evaluator implements. In the collection that holds
  \<open>{id: 'a', x: 1}\<close>, no document matches \<open>{$nor: [{x: 1}]}\<close> or \<open>{x: {$mod: [2, 0]}}\<close>;
  \<open>count\<close> answers 0 with success, and \<open>find\<close> answers with code 500 and the message
  that the operator is invalid.
\<close>

theorem find_rejects_implemented_operators:
  "matching number_builtins one_document (Obj [(''$nor'', Arr [Obj [(''x'', Num 1)]])]) = Inr []
   \<and> fst (count_op number_builtins one_document (Obj [(''$nor'', Arr [Obj [(''x'', Num 1)]])]))
       = Obj [(''success'', Bool True), (''data'', Num 0), (''error'', Null)]
   \<and> fst (find_op number_builtins one_document (Obj [(''$nor'', Arr [Obj [(''x'', Num 1)]])]) no_options)
       = Obj [(''success'', Bool False), (''data'', Arr []), (''total'', Num 0),
              (''error'', Obj [(''message'', Str (''Invalid query operator: $nor. Valid operators: ''
                                      @ ''$eq, $ne, $gt, $gte, $lt, $lte, $in, $nin, $exists, $regex, $and, $or, $not'')),
                               (''code'', Num 500)])]
   \<and> matching number_builtins one_document (Obj [(''x'', Obj [(''$mod'', Arr [Num 2, Num 0])])]) = Inr []
   \<and> fst (count_op number_builtins one_document (Obj [(''x'', Obj [(''$mod'', Arr [Num 2, Num 0])])]))
       = Obj [(''success'', Bool True), (''data'', Num 0), (''error'', Null)]
   \<and> fst (find_op number_builtins one_document (Obj [(''x'', Obj [(''$mod'', Arr [Num 2, Num 0])])]) no_options)
       = Obj [(''success'', Bool False), (''data'', Arr []), (''total'', Num 0),
              (''error'', Obj [(''message'', Str (''Invalid query operator: $mod. Valid operators: ''
                                      @ ''$eq, $ne, $gt, $gte, $lt, $lte, $in, $nin, $exists, $regex, $and, $or, $not'')),
                               (''code'', Num 500)])]"
  by code_simp

lemma lookup_Cons: "lookup ((k1, v1) # kvs) k = (if k = k1 then v1 else lookup kvs k)"
  by (simp add: lookup_def)

lemma lookup_obj_set: "lookup (obj_set kvs k v) k' = (if k' = k then v else lookup kvs k')"
  by (induction kvs) (auto simp: lookup_def)

lemma map_fst_obj_set:
  "map fst (obj_set kvs k v) =
     (if k \<in> set (map fst kvs) then map fst kvs else map fst kvs @ [k])"
  by (induction kvs) (force split: if_splits)+

lemma keys_obj_set: "set (map fst (obj_set kvs k v)) = insert k (set (map fst kvs))"
  by (auto simp: map_fst_obj_set)

lemma lookup_absent: "k \<notin> set (map fst kvs) \<Longrightarrow> lookup kvs k = Undefined"
proof -
  assume "k \<notin> set (map fst kvs)"
  then have "map_of kvs k = None" by (simp add: map_of_eq_None_iff)
  then show ?thesis by (simp add: lookup_def)
qed

lemma lookup_assign:
  "distinct (map fst src) \<Longrightarrow>
     lookup (assign target src) k =
       (if k \<in> set (map fst src) then lookup src k else lookup target k)"
proof (induction src arbitrary: target)
  case Nil
  then show ?case by (simp add: assign_def)
next
  case (Cons kv src)
  obtain k1 v1 where kv: "kv = (k1, v1)" by (cases kv)
  have step: "assign target ((k1, v1) # src) = assign (obj_set target k1 v1) src"
    by (simp add: assign_def)
  from Cons.prems kv have d: "distinct (map fst src)" and n: "k1 \<notin> set (map fst src)" by auto
  show ?case
  proof (cases "k \<in> set (map fst src)")
    case True
    with n have "k \<noteq> k1" by auto
    with True show ?thesis
      unfolding kv step Cons.IH [OF d] by (simp add: lookup_Cons)
  next
    case False
    then show ?thesis
      unfolding kv step Cons.IH [OF d] by (simp add: lookup_obj_set lookup_Cons)
  qed
qed

lemma distinct_obj_set: "distinct (map fst kvs) \<Longrightarrow> distinct (map fst (obj_set kvs k v))"
  by (simp add: map_fst_obj_set)

lemma idIndex_exact_lookup:
  assumes "idIndex_exact s" and "i < length (data (col s))" and "id_at s i = Str docId"
  shows "map_get (idIndex (col s)) (Str docId) = Some i"
proof -
  from assms(2,3) have "i \<in> set (filter (\<lambda>i. id_at s i \<noteq> Undefined \<and> id_at s i \<noteq> Null)
                           [0..<length (data (col s))])" by simp
  with assms(1) have "map_get (idIndex (col s)) (id_at s i) = Some i"
    unfolding idIndex_exact_def list_all_iff by blast
  with assms(3) show ?thesis by simp
qed


lemma insert_one_upsert:
  assumes "truthy (field (st t) d ''id'')"
    and "map_get (idIndex (col (st t))) (Str (to_string (field (st t) d ''id''))) = Some i"
    and "i < length (data (col (st t)))"
  shows "insert_one env u d t =
     (None,
      t\<lparr>st := (set_field (st t) d ''id'' (Str (to_string (field (st t) d ''id''))))
               \<lparr>heap := (heap (set_field (st t) d ''id'' (Str (to_string (field (st t) d ''id'')))))
                   (data (col (st t)) ! i :=
                      merged_document env
                        (heap (set_field (st t) d ''id'' (Str (to_string (field (st t) d ''id''))))
                           (data (col (st t)) ! i))
                        (heap (set_field (st t) d ''id'' (Str (to_string (field (st t) d ''id'')))) d))\<rparr>,
        allIdsWereGenerated := False,
        updated := updated t @ [data (col (st t)) ! i]\<rparr>)"
  using assms
  by (simp add: insert_one_def assign_id_def upsert_existing_def set_field_def field_def
        merged_document_def Let_def)

lemma merged_document_fields:
  assumes "distinct (map fst doc)"
  shows "lookup (merged_document env existing doc) ''updatedAt'' = Str (env_now env)"
    and "lookup (merged_document env existing doc) ''createdAt'' = lookup existing ''createdAt''"
    and "k \<noteq> ''createdAt'' \<Longrightarrow> k \<noteq> ''updatedAt'' \<Longrightarrow>
         lookup (merged_document env existing doc) k =
           (if k \<in> set (map fst doc) then lookup doc k else lookup existing k)"
  using assms by (simp_all add: merged_document_def lookup_obj_set lookup_assign)

text \<open>
  The upsert, where \<open>idIndex\<close> knows the id. Let \<open>idIndex\<close> be exact, and let a document
  be inserted whose id (as a string) is the id of the document at position \<open>i\<close>. Then
  the response is a success with
  \<open>insertedCount\<close> 0 and \<open>updatedCount\<close> 1; \<open>data\<close> is unchanged; the stored document
  keeps its \<open>createdAt\<close>, has \<open>updatedAt\<close> set to the time of the insert, and every
  other field has the value of the input where the input has the field, and its old
  value otherwise. In a batch, the step of the loop for such a document adds it to the
  updated documents and to nothing else.
\<close>

lemma insert_existing_id_is_upsert:
  assumes exact: "idIndex_exact s"
    and i: "i < length (data (col s))"
    and supplied: "truthy (field s d ''id'')"
    and same: "id_at s i = Str (to_string (field s d ''id''))"
    and keys: "distinct (map fst (heap s d))"
  shows "fst (insert_op env s (One d)) =
           Obj [(''success'', Bool True),
                (''data'', Obj [(''insertedCount'', Num 0), (''updatedCount'', Num 1)]),
                (''error'', Null)]
       \<and> data (col (snd (insert_op env s (One d)))) = data (col s)
       \<and> field (snd (insert_op env s (One d))) (data (col s) ! i) ''createdAt''
           = field s (data (col s) ! i) ''createdAt''
       \<and> field (snd (insert_op env s (One d))) (data (col s) ! i) ''updatedAt''
           = Str (env_now env)
       \<and> (\<forall>k. k \<noteq> ''createdAt'' \<and> k \<noteq> ''updatedAt'' \<longrightarrow>
             field (snd (insert_op env s (One d))) (data (col s) ! i) k =
               (if k = ''id'' then Str (to_string (field s d ''id''))
                else if k \<in> set (map fst (heap s d)) then field s d k
                else field s (data (col s) ! i) k))
       \<and> (\<forall>u t. st t = s \<longrightarrow>
             fst (insert_one env u d t) = None
             \<and> inserted (snd (insert_one env u d t)) = inserted t
             \<and> updated (snd (insert_one env u d t)) = updated t @ [data (col s) ! i]
             \<and> data (col (st (snd (insert_one env u d t)))) = data (col s))"
proof -
  let ?docId = "to_string (field s d ''id'')"
  let ?e = "data (col s) ! i"
  let ?s1 = "set_field s d ''id'' (Str ?docId)"
  let ?m = "merged_document env (heap ?s1 ?e) (heap ?s1 d)"
  have known: "map_get (idIndex (col s)) (Str ?docId) = Some i"
    using idIndex_exact_lookup [OF exact i same] .
  have step: "insert_one env u d t =
      (None, t\<lparr>st := ?s1\<lparr>heap := (heap ?s1)(?e := ?m)\<rparr>,
                allIdsWereGenerated := False,
                updated := updated t @ [?e]\<rparr>)" if "st t = s" for u t
    using insert_one_upsert [of t d i env u] supplied known i that by simp
  let ?t0 = "\<lparr>st = s, sequence = 0, allIdsWereGenerated = True, inserted = [], updated = []\<rparr>"
  have run: "insert_op env s (One d) =
      (success (Obj [(''insertedCount'', Num 0), (''updatedCount'', Num 1)]),
       (?s1\<lparr>heap := (heap ?s1)(?e := ?m)\<rparr>)\<lparr>col := (col s)\<lparr>dirty := True\<rparr>\<rparr>)"
    using step [of ?t0 False]
    by (simp add: insert_op_def insert_response_def set_field_def)
  have h1d: "heap ?s1 d = obj_set (heap s d) ''id'' (Str ?docId)"
    by (simp add: set_field_def)
  have h1e: "lookup (heap ?s1 ?e) k = (if ?e = d then lookup (heap ?s1 d) k else lookup (heap s ?e) k)" for k
    by (simp add: set_field_def)
  have d1: "distinct (map fst (heap ?s1 d))"
    unfolding h1d using keys by (rule distinct_obj_set)
  have f: "field (snd (insert_op env s (One d))) ?e k = lookup ?m k" for k
    unfolding run by (simp add: field_def)
  have created: "lookup ?m ''createdAt'' = field s ?e ''createdAt''"
    unfolding merged_document_fields(2) [OF d1] h1e
    by (simp add: set_field_def lookup_obj_set field_def)
  have updated_at: "lookup ?m ''updatedAt'' = Str (env_now env)"
    using merged_document_fields(1) [OF d1] .
  have other: "lookup ?m k =
      (if k = ''id'' then Str ?docId
       else if k \<in> set (map fst (heap s d)) then field s d k
       else field s ?e k)" if "k \<noteq> ''createdAt''" "k \<noteq> ''updatedAt''" for k
  proof -
    have "lookup ?m k =
        (if k \<in> set (map fst (heap ?s1 d)) then lookup (heap ?s1 d) k else lookup (heap ?s1 ?e) k)"
      using merged_document_fields(3) [OF d1 that] .
    also have "\<dots> =
      (if k = ''id'' then Str ?docId
       else if k \<in> set (map fst (heap s d)) then field s d k
       else field s ?e k)"
    proof -
      have ks: "set (map fst (heap ?s1 d)) = insert ''id'' (set (map fst (heap s d)))"
        by (simp only: h1d keys_obj_set)
      have ld: "lookup (heap ?s1 d) k = (if k = ''id'' then Str ?docId else lookup (heap s d) k)"
        by (simp only: h1d lookup_obj_set)
      have absent: "lookup (heap s d) k = Undefined" if "k \<notin> set (map fst (heap s d))"
        using that by (rule lookup_absent)
      show ?thesis
        unfolding h1e ks ld
        by (cases "k = ''id''"; cases "k \<in> set (map fst (heap s d))"; cases "?e = d")
           (simp_all add: field_def absent del: set_map)
    qed
    finally show ?thesis .
  qed
  have c1: "fst (insert_op env s (One d)) =
           Obj [(''success'', Bool True),
                (''data'', Obj [(''insertedCount'', Num 0), (''updatedCount'', Num 1)]),
                (''error'', Null)]"
    by (simp add: run success_def)
  have c2: "data (col (snd (insert_op env s (One d)))) = data (col s)"
    by (simp add: run)
  have c3: "field (snd (insert_op env s (One d))) ?e ''createdAt'' = field s ?e ''createdAt''"
    by (simp only: f created)
  have c4: "field (snd (insert_op env s (One d))) ?e ''updatedAt'' = Str (env_now env)"
    by (simp only: f updated_at)
  have c5: "\<forall>k. k \<noteq> ''createdAt'' \<and> k \<noteq> ''updatedAt'' \<longrightarrow>
             field (snd (insert_op env s (One d))) ?e k =
               (if k = ''id'' then Str ?docId
                else if k \<in> set (map fst (heap s d)) then field s d k
                else field s ?e k)"
    using other by (simp only: f) blast
  have c6: "\<forall>u t. st t = s \<longrightarrow>
             fst (insert_one env u d t) = None
             \<and> inserted (snd (insert_one env u d t)) = inserted t
             \<and> updated (snd (insert_one env u d t)) = updated t @ [?e]
             \<and> data (col (st (snd (insert_one env u d t)))) = data (col s)"
  proof (intro allI impI)
    fix u and t :: insert_state
    assume t: "st t = s"
    from step [of t u] t show
      "fst (insert_one env u d t) = None
       \<and> inserted (snd (insert_one env u d t)) = inserted t
       \<and> updated (snd (insert_one env u d t)) = updated t @ [?e]
       \<and> data (col (st (snd (insert_one env u d t)))) = data (col s)"
      by (simp add: set_field_def)
  qed
  from c1 c2 c3 c4 c5 c6 show ?thesis by (intro conjI)
qed


lemma insert_existing_id_is_upsert_example:
  "fst (insert_op later upsert_request (One 1)) =
     Obj [(''success'', Bool True),
          (''data'', Obj [(''insertedCount'', Num 0), (''updatedCount'', Num 1)]),
          (''error'', Null)]
   \<and> data (col (snd (insert_op later upsert_request (One 1)))) = [0]
   \<and> field (snd (insert_op later upsert_request (One 1))) 0 ''createdAt'' = Str ''2025-01-01T00:00:00.000Z''
   \<and> field (snd (insert_op later upsert_request (One 1))) 0 ''updatedAt'' = Str ''2025-01-03T00:00:00.000Z''
   \<and> field (snd (insert_op later upsert_request (One 1))) 0 ''x'' = Num 9
   \<and> field (snd (insert_op later upsert_request (One 1))) 0 ''y'' = Num 2"
proof -
  have h1: "idIndex_exact upsert_request" by code_simp
  have h2: "0 < length (data (col upsert_request))" by code_simp
  have h3: "truthy (field upsert_request 1 ''id'')" by code_simp
  have h4: "id_at upsert_request 0 = Str (to_string (field upsert_request 1 ''id''))" by code_simp
  have h5: "distinct (map fst (heap upsert_request 1))" by code_simp
  note T = insert_existing_id_is_upsert [of upsert_request 0 1 later, OF h1 h2 h3 h4 h5]
  have e0: "data (col upsert_request) ! 0 = 0" by code_simp
  have e1: "data (col upsert_request) = [0]" by code_simp
  have e2: "field upsert_request 0 ''createdAt'' = Str ''2025-01-01T00:00:00.000Z''" by code_simp
  have e3: "env_now later = ''2025-01-03T00:00:00.000Z''" by code_simp
  have e4: "''x'' \<in> set (map fst (heap upsert_request 1))" "field upsert_request 1 ''x'' = Num 9"
    by code_simp+
  have e5: "''y'' \<in> set (map fst (heap upsert_request 1))" "field upsert_request 1 ''y'' = Num 2"
    by code_simp+
  from T have t5: "\<And>k. k \<noteq> ''createdAt'' \<Longrightarrow> k \<noteq> ''updatedAt'' \<Longrightarrow>
      field (snd (insert_op later upsert_request (One 1))) (data (col upsert_request) ! 0) k =
        (if k = ''id'' then Str (to_string (field upsert_request 1 ''id''))
         else if k \<in> set (map fst (heap upsert_request 1)) then field upsert_request 1 k
         else field upsert_request (data (col upsert_request) ! 0) k)"
    by blast
  from t5 [of "''x''"] e4 have x: "field (snd (insert_op later upsert_request (One 1))) 0 ''x'' = Num 9"
    by (simp add: e0 del: set_map)
  from t5 [of "''y''"] e5 have y: "field (snd (insert_op later upsert_request (One 1))) 0 ''y'' = Num 2"
    by (simp add: e0 del: set_map)
  from T x y show ?thesis
    by (simp add: e0 e1 e2 e3 del: set_map)
qed

text \<open>
  C5. An insert with the id of a stored document is not always an upsert: \<open>insert\<close>
  looks for the id in \<open>idIndex\<close> alone, and \<open>idIndex\<close> does not follow an update that
  writes the field \<open>id\<close>. After \<open>insert({id: 'a', x: 1})\<close> and
  \<open>updateById('a', {$set: {id: 'b'}})\<close> the collection holds one document, whose id is
  \<open>'b'\<close>; \<open>insert({id: 'b', x: 9})\<close> then reports one inserted and no updated document,
  appends the input to \<open>data\<close>, which now holds two documents with the id \<open>'b'\<close>, and
  leaves the stored document as it was (\<open>x\<close> is 1, \<open>updatedAt\<close> the time of the update).
\<close>

theorem insert_duplicates_existing_id:
  "data (col second_request) = [0]
   \<and> field second_request 0 ''id'' = Str ''b''
   \<and> field second_request 1 ''id'' = Str ''b''
   \<and> fst second_insert =
       Obj [(''success'', Bool True),
            (''data'', Obj [(''insertedCount'', Num 1), (''updatedCount'', Num 0),
                            (''insertedIds'', Arr [Str ''b''])]),
            (''error'', Null)]
   \<and> data (col (snd second_insert)) = [0, 1]
   \<and> map (\<lambda>r. field (snd second_insert) r ''id'') [0, 1] = [Str ''b'', Str ''b'']
   \<and> field (snd second_insert) 0 ''x'' = Num 1
   \<and> field (snd second_insert) 0 ''updatedAt'' = Str ''2025-01-02T00:00:00.000Z''"
  by code_simp

lemma map_get_map_set_Str:
  "map_get (map_set m (Str a) v) (Str b) = (if a = b then Some v else map_get m (Str b))"
proof (induction m)
  case Nil
  then show ?case by simp
next
  case (Cons kv m)
  obtain k w where kv: "kv = (k, w)" by (cases kv)
  show ?case using Cons by (cases k) (auto simp: kv)
qed

lemma assign_id_facts:
  shows "fst (assign_id env u t d) = step_id env u t d"
    and "st (snd (assign_id env u t d)) = set_field (st t) d ''id'' (Str (step_id env u t d))"
    and "sequence (snd (assign_id env u t d)) =
           (if \<not> truthy (field (st t) d ''id'') \<and> u then sequence t + 1 else sequence t)"
    and "allIdsWereGenerated (snd (assign_id env u t d)) =
           (allIdsWereGenerated t \<and> \<not> truthy (field (st t) d ''id''))"
    and "inserted (snd (assign_id env u t d)) = inserted t"
    and "updated (snd (assign_id env u t d)) = updated t"
  by (simp_all add: assign_id_def step_id_def sequential_id_def)

lemma insert_one_new:
  assumes "map_get (idIndex (col (st t))) (Str (step_id env u t d)) = None"
  shows "fst (insert_one env u d t) = None"
    and "sequence (snd (insert_one env u d t)) =
           (if \<not> truthy (field (st t) d ''id'') \<and> u then sequence t + 1 else sequence t)"
    and "allIdsWereGenerated (snd (insert_one env u d t)) =
           (allIdsWereGenerated t \<and> \<not> truthy (field (st t) d ''id''))"
    and "inserted (snd (insert_one env u d t)) = inserted t @ [d]"
    and "updated (snd (insert_one env u d t)) = updated t"
    and "data (col (st (snd (insert_one env u d t)))) = data (col (st t)) @ [d]"
    and "idIndex (col (st (snd (insert_one env u d t)))) =
           map_set (idIndex (col (st t))) (Str (step_id env u t d)) (length (data (col (st t))))"
    and "field (st (snd (insert_one env u d t))) d ''id'' = Str (step_id env u t d)"
    and "\<And>r. r \<noteq> d \<Longrightarrow> heap (st (snd (insert_one env u d t))) r = heap (st t) r"
proof -
  obtain docId t1 where a: "assign_id env u t d = (docId, t1)" by (cases "assign_id env u t d")
  note f = assign_id_facts [of env u t d, unfolded a fst_conv snd_conv]
  have run: "insert_one env u d t = (None, insert_new env t1 d docId)"
    using assms by (simp add: insert_one_def a f set_field_def)
  show "fst (insert_one env u d t) = None" by (simp add: run)
  show "sequence (snd (insert_one env u d t)) =
           (if \<not> truthy (field (st t) d ''id'') \<and> u then sequence t + 1 else sequence t)"
    by (simp add: run insert_new_def Let_def f)
  show "allIdsWereGenerated (snd (insert_one env u d t)) =
           (allIdsWereGenerated t \<and> \<not> truthy (field (st t) d ''id''))"
    by (simp add: run insert_new_def Let_def f)
  show "inserted (snd (insert_one env u d t)) = inserted t @ [d]"
    by (simp add: run insert_new_def Let_def f)
  show "updated (snd (insert_one env u d t)) = updated t"
    by (simp add: run insert_new_def Let_def f)
  show "data (col (st (snd (insert_one env u d t)))) = data (col (st t)) @ [d]"
    by (simp add: run insert_new_def Let_def f set_field_def)
  show "idIndex (col (st (snd (insert_one env u d t)))) =
           map_set (idIndex (col (st t))) (Str (step_id env u t d)) (length (data (col (st t))))"
    by (simp add: run insert_new_def Let_def f set_field_def)
  show "field (st (snd (insert_one env u d t))) d ''id'' = Str (step_id env u t d)"
    by (simp add: run insert_new_def Let_def f set_field_def field_def lookup_obj_set)
  show "\<And>r. r \<noteq> d \<Longrightarrow> heap (st (snd (insert_one env u d t))) r = heap (st t) r"
    by (simp add: run insert_new_def Let_def f set_field_def)
qed

lemma insert_one_existing:
  assumes "map_get (idIndex (col (st t))) (Str (step_id env u t d)) = Some i"
    and "i < length (data (col (st t)))"
    and "data (col (st t)) ! i \<noteq> d"
    and "distinct (map fst (heap (st t) d))"
  shows "fst (insert_one env u d t) = None"
    and "sequence (snd (insert_one env u d t)) =
           (if \<not> truthy (field (st t) d ''id'') \<and> u then sequence t + 1 else sequence t)"
    and "allIdsWereGenerated (snd (insert_one env u d t)) =
           (allIdsWereGenerated t \<and> \<not> truthy (field (st t) d ''id''))"
    and "inserted (snd (insert_one env u d t)) = inserted t"
    and "updated (snd (insert_one env u d t)) = updated t @ [data (col (st t)) ! i]"
    and "data (col (st (snd (insert_one env u d t)))) = data (col (st t))"
    and "idIndex (col (st (snd (insert_one env u d t)))) = idIndex (col (st t))"
    and "field (st (snd (insert_one env u d t))) d ''id'' = Str (step_id env u t d)"
    and "field (st (snd (insert_one env u d t))) (data (col (st t)) ! i) ''id''
           = Str (step_id env u t d)"
    and "\<And>r. r \<noteq> d \<Longrightarrow> r \<noteq> data (col (st t)) ! i \<Longrightarrow>
           heap (st (snd (insert_one env u d t))) r = heap (st t) r"
proof -
  let ?e = "data (col (st t)) ! i"
  let ?id = "Str (step_id env u t d)"
  let ?doc = "obj_set (heap (st t) d) ''id'' ?id"
  have dd: "distinct (map fst ?doc)" using assms(4) by (rule distinct_obj_set)
  have key: "''id'' \<in> set (map fst ?doc)" by (simp add: keys_obj_set del: set_map)
  have m: "lookup (merged_document env (heap (st t) ?e) ?doc) ''id'' = ?id"
    using merged_document_fields(3) [OF dd, of "''id''" env "heap (st t) ?e"] key
    by (simp add: lookup_obj_set del: set_map)
  obtain docId t1 where a: "assign_id env u t d = (docId, t1)" by (cases "assign_id env u t d")
  note f = assign_id_facts [of env u t d, unfolded a fst_conv snd_conv]
  have run: "insert_one env u d t = upsert_existing env t1 d i"
    using assms(1) by (simp add: insert_one_def a f set_field_def)
  have up: "upsert_existing env t1 d i =
      (None, t1\<lparr>st := (st t1)\<lparr>heap := (heap (st t1))
                     (?e := merged_document env (heap (st t) ?e) ?doc)\<rparr>,
                 updated := updated t1 @ [?e]\<rparr>)"
    using assms(2,3) by (simp add: upsert_existing_def f set_field_def Let_def)
  show "fst (insert_one env u d t) = None" by (simp add: run up)
  show "sequence (snd (insert_one env u d t)) =
           (if \<not> truthy (field (st t) d ''id'') \<and> u then sequence t + 1 else sequence t)"
    by (simp add: run up f)
  show "allIdsWereGenerated (snd (insert_one env u d t)) =
           (allIdsWereGenerated t \<and> \<not> truthy (field (st t) d ''id''))"
    by (simp add: run up f)
  show "inserted (snd (insert_one env u d t)) = inserted t" by (simp add: run up f)
  show "updated (snd (insert_one env u d t)) = updated t @ [?e]" by (simp add: run up f)
  show "data (col (st (snd (insert_one env u d t)))) = data (col (st t))"
    by (simp add: run up f set_field_def)
  show "idIndex (col (st (snd (insert_one env u d t)))) = idIndex (col (st t))"
    by (simp add: run up f set_field_def)
  show "field (st (snd (insert_one env u d t))) d ''id'' = ?id"
    using assms(3) by (simp add: run up f set_field_def field_def lookup_obj_set)
  show "field (st (snd (insert_one env u d t))) ?e ''id'' = ?id"
    using m by (simp add: run up f set_field_def field_def)
  show "\<And>r. r \<noteq> d \<Longrightarrow> r \<noteq> ?e \<Longrightarrow> heap (st (snd (insert_one env u d t))) r = heap (st t) r"
    by (simp add: run up f set_field_def)
qed


lemma run_entries_append:
  "run_entries f (xs @ ys) t =
     (case run_entries f xs t of
        (Some e, t') \<Rightarrow> (Some e, t')
      | (None, t') \<Rightarrow> run_entries f ys t')"
  by (induction xs arbitrary: t) (auto split: prod.splits option.splits)

lemma map_get_Some_in: "map_get m k = Some v \<Longrightarrow> v \<in> snd ` set m"
  by (induction m) (auto split: if_splits)

lemma assigned_id_snoc_old:
  "j < length ds \<Longrightarrow> assigned_id env u s (ds @ [d]) j = assigned_id env u s ds j"
  by (simp add: assigned_id_def nth_append)

lemma assigned_id_snoc_new:
  "assigned_id env u s (ds @ [d]) (length ds) =
     (if \<not> without_id s d then to_string (field s d ''id'')
      else if u then sequential_id env (length (filter (without_id s) ds) + 1)
      else env_random env)"
  by (simp add: assigned_id_def)

lemma is_fresh_snoc_old:
  "j < length ds \<Longrightarrow> is_fresh env u s (ds @ [d]) j = is_fresh env u s ds j"
  by (auto simp: is_fresh_def list_all_iff assigned_id_snoc_old)

lemma fresh_positions_bound:
  "j \<in> set (fresh_positions env u s ds) \<Longrightarrow> j < length ds"
  by (simp add: fresh_positions_def)

lemma fresh_positions_snoc:
  "fresh_positions env u s (ds @ [d]) =
     fresh_positions env u s ds
     @ (if is_fresh env u s (ds @ [d]) (length ds) then [length ds] else [])"
proof -
  have "filter (is_fresh env u s (ds @ [d])) [0..<length ds]
          = filter (is_fresh env u s ds) [0..<length ds]"
    by (rule filter_cong) (simp_all add: is_fresh_snoc_old)
  then show ?thesis by (simp add: fresh_positions_def)
qed

lemma fresh_docs_snoc:
  "fresh_docs env u s (ds @ [d]) =
     fresh_docs env u s ds @ (if is_fresh env u s (ds @ [d]) (length ds) then [d] else [])"
proof -
  have "map (\<lambda>j. (ds @ [d]) ! j) (fresh_positions env u s ds)
          = map (\<lambda>j. ds ! j) (fresh_positions env u s ds)"
    by (rule map_cong) (auto simp: nth_append dest: fresh_positions_bound)
  then show ?thesis by (simp add: fresh_docs_def fresh_positions_snoc)
qed

lemma fresh_docs_subset: "set (fresh_docs env u s ds) \<subseteq> set ds"
  by (auto simp: fresh_docs_def dest: fresh_positions_bound)


lemma insert_loop_state:
  assumes valid: "\<forall>i \<in> snd ` set (idIndex (col s)). i < length (data (col s))"
  shows "distinct ds \<Longrightarrow>
         \<forall>d \<in> set ds. d \<notin> set (data (col s)) \<and> distinct (map fst (heap s d)) \<Longrightarrow>
         \<exists>t. run_entries (insert_one env u) ds (batch_start s) = (None, t)
              \<and> batch_state env u s ds t"
proof (induction ds rule: rev_induct)
  case Nil
  have "batch_state env u s [] (batch_start s)"
    using valid
    by (auto simp: batch_state_def batch_start_def fresh_docs_def fresh_positions_def
             dest: map_get_Some_in)
  then show ?case by simp
next
  case (snoc d ds)
  let ?n = "length ds"
  let ?A = "assigned_id env u s (ds @ [d])"
  from snoc.prems have dist: "distinct ds" and d_new: "d \<notin> set ds"
    and d_out: "d \<notin> set (data (col s))" and d_keys: "distinct (map fst (heap s d))"
    and rest: "\<forall>d \<in> set ds. d \<notin> set (data (col s)) \<and> distinct (map fst (heap s d))"
    by auto
  from snoc.IH [OF dist rest] obtain t
    where run: "run_entries (insert_one env u) ds (batch_start s) = (None, t)"
      and inv: "batch_state env u s ds t" by blast
  from inv have
        i_seq: "u \<longrightarrow> sequence t = length (filter (without_id s) ds)"
    and i_gen: "allIdsWereGenerated t = list_all (without_id s) ds"
    and i_ins: "inserted t = fresh_docs env u s ds"
    and i_dat: "data (col (st t)) = data (col s) @ fresh_docs env u s ds"
    and i_upd: "length (updated t) + length (fresh_docs env u s ds) = length ds"
    and i_ids: "\<And>j. j < length ds \<Longrightarrow> field (st t) (ds ! j) ''id'' = Str (assigned_id env u s ds j)"
    and i_frame: "\<And>r. r \<notin> set ds \<Longrightarrow> r \<notin> set (data (col s)) \<Longrightarrow> heap (st t) r = heap s r"
    and i_none: "\<And>x. (map_get (idIndex (col (st t))) (Str x) = None) =
            (map_get (idIndex (col s)) (Str x) = None
             \<and> (\<forall>j<length ds. assigned_id env u s ds j \<noteq> x))"
    and i_some: "\<And>x i. map_get (idIndex (col (st t))) (Str x) = Some i \<Longrightarrow>
            i < length (data (col (st t)))
            \<and> (data (col (st t)) ! i \<in> set ds \<longrightarrow>
                 field (st t) (data (col (st t)) ! i) ''id'' = Str x)"
    unfolding batch_state_def by blast+
  have heap_d: "heap (st t) d = heap s d" using i_frame [OF d_new d_out] .
  then have field_d: "field (st t) d ''id'' = field s d ''id''" by (simp add: field_def)
  have d_not_stored: "d \<notin> set (data (col (st t)))"
    using d_new d_out fresh_docs_subset [of env u s ds] by (auto simp: i_dat)
  have A_old: "?A j = assigned_id env u s ds j" if "j < ?n" for j
    using that by (rule assigned_id_snoc_old)
  have A_new: "?A ?n = step_id env u t d"
    using i_seq by (auto simp: assigned_id_snoc_new step_id_def field_d without_id_def)
  have nth_old: "(ds @ [d]) ! j = ds ! j" if "j < ?n" for j
    using that by (simp add: nth_append)
  have fresh_iff: "is_fresh env u s (ds @ [d]) ?n
                   = (map_get (idIndex (col (st t))) (Str (step_id env u t d)) = None)"
    unfolding i_none is_fresh_def A_new [symmetric]
    by (auto simp: list_all_iff A_old)
  have seq_step: "u \<longrightarrow>
      (if \<not> truthy (field (st t) d ''id'') \<and> u then sequence t + 1 else sequence t)
        = length (filter (without_id s) (ds @ [d]))"
    using i_seq by (simp add: field_d without_id_def)
  have gen_step: "(allIdsWereGenerated t \<and> \<not> truthy (field (st t) d ''id''))
                    = list_all (without_id s) (ds @ [d])"
    by (simp add: i_gen field_d without_id_def)
  let ?t' = "snd (insert_one env u d t)"
  have run': "run_entries (insert_one env u) (ds @ [d]) (batch_start s) = insert_one env u d t"
    by (simp add: run_entries_append run split: prod.splits option.splits)
  show ?case
  proof (cases "map_get (idIndex (col (st t))) (Str (step_id env u t d))")
    case None
    note one = insert_one_new [OF None]
    from None have fresh: "is_fresh env u s (ds @ [d]) ?n" by (simp add: fresh_iff)
    have fd: "fresh_docs env u s (ds @ [d]) = fresh_docs env u s ds @ [d]"
      by (simp add: fresh_docs_snoc fresh)
    have c1: "u \<longrightarrow> sequence ?t' = length (filter (without_id s) (ds @ [d]))"
      using seq_step by (simp only: one(2))
    have c2: "allIdsWereGenerated ?t' = list_all (without_id s) (ds @ [d])"
      using gen_step by (simp only: one(3))
    have c3: "inserted ?t' = fresh_docs env u s (ds @ [d])"
      by (simp add: one(4) fd i_ins)
    have c4: "data (col (st ?t')) = data (col s) @ fresh_docs env u s (ds @ [d])"
      by (simp add: one(6) fd i_dat)
    have c5: "length (updated ?t') + length (fresh_docs env u s (ds @ [d])) = length (ds @ [d])"
      using i_upd by (simp add: one(5) fd)
    have c6: "\<forall>j<length (ds @ [d]). field (st ?t') ((ds @ [d]) ! j) ''id'' = Str (?A j)"
    proof (intro allI impI)
      fix j assume "j < length (ds @ [d])"
      then consider "j < ?n" | "j = ?n" by fastforce
      then show "field (st ?t') ((ds @ [d]) ! j) ''id'' = Str (?A j)"
      proof cases
        case 1
        then have "ds ! j \<noteq> d" using d_new by auto
        from one(9) [OF this] have "field (st ?t') (ds ! j) ''id'' = field (st t) (ds ! j) ''id''"
          by (simp add: field_def)
        with 1 show ?thesis by (simp add: nth_old A_old i_ids)
      next
        case 2
        then show ?thesis by (simp add: one(8) A_new)
      qed
    qed
    have c7: "\<forall>r. r \<notin> set (ds @ [d]) \<and> r \<notin> set (data (col s)) \<longrightarrow> heap (st ?t') r = heap s r"
    proof (intro allI impI)
      fix r assume r: "r \<notin> set (ds @ [d]) \<and> r \<notin> set (data (col s))"
      then have "r \<noteq> d" "r \<notin> set ds" by auto
      with r one(9) [of r] i_frame [of r] show "heap (st ?t') r = heap s r" by simp
    qed
    have c8: "\<forall>x. (map_get (idIndex (col (st ?t'))) (Str x) = None) =
            (map_get (idIndex (col s)) (Str x) = None \<and> (\<forall>j<length (ds @ [d]). ?A j \<noteq> x))"
    proof
      fix x
      have "(\<forall>j<length (ds @ [d]). ?A j \<noteq> x) =
            (step_id env u t d \<noteq> x \<and> (\<forall>j<?n. assigned_id env u s ds j \<noteq> x))"
        by (simp add: All_less_Suc A_new A_old)
      then show "(map_get (idIndex (col (st ?t'))) (Str x) = None) =
            (map_get (idIndex (col s)) (Str x) = None \<and> (\<forall>j<length (ds @ [d]). ?A j \<noteq> x))"
        using i_none [of x] by (auto simp: one(7) map_get_map_set_Str)
    qed
    have c9: "\<forall>x i. map_get (idIndex (col (st ?t'))) (Str x) = Some i \<longrightarrow>
            i < length (data (col (st ?t')))
            \<and> (data (col (st ?t')) ! i \<in> set (ds @ [d]) \<longrightarrow>
                 field (st ?t') (data (col (st ?t')) ! i) ''id'' = Str x)"
    proof (intro allI impI)
      fix x i assume g: "map_get (idIndex (col (st ?t'))) (Str x) = Some i"
      show "i < length (data (col (st ?t')))
            \<and> (data (col (st ?t')) ! i \<in> set (ds @ [d]) \<longrightarrow>
                 field (st ?t') (data (col (st ?t')) ! i) ''id'' = Str x)"
      proof (cases "step_id env u t d = x")
        case True
        with g have "i = length (data (col (st t)))" by (simp add: one(7) map_get_map_set_Str)
        with True show ?thesis by (simp add: one(6) one(8))
      next
        case False
        with g have old: "map_get (idIndex (col (st t))) (Str x) = Some i"
          by (simp add: one(7) map_get_map_set_Str)
        from i_some [OF old] have lt: "i < length (data (col (st t)))"
          and ex: "data (col (st t)) ! i \<in> set ds \<longrightarrow> field (st t) (data (col (st t)) ! i) ''id'' = Str x"
          by auto
        from lt have here: "(data (col (st t)) @ [d]) ! i = data (col (st t)) ! i"
          by (simp add: nth_append)
        from lt d_not_stored have ne: "data (col (st t)) ! i \<noteq> d" by (metis nth_mem)
        from one(9) [OF ne] have same: "field (st ?t') (data (col (st t)) ! i) ''id''
            = field (st t) (data (col (st t)) ! i) ''id''" by (simp add: field_def)
        from lt ex ne show ?thesis by (auto simp: one(6) here same)
      qed
    qed
    have "batch_state env u s (ds @ [d]) ?t'"
      unfolding batch_state_def using c1 c2 c3 c4 c5 c6 c7 c8 c9 by (intro conjI)
    moreover have "run_entries (insert_one env u) (ds @ [d]) (batch_start s) = (None, ?t')"
      using one(1) by (simp add: run' prod_eq_iff)
    ultimately show ?thesis by blast
  next
    case (Some i)
    let ?e = "data (col (st t)) ! i"
    from i_some [OF Some] have lt: "i < length (data (col (st t)))"
      and ex: "?e \<in> set ds \<longrightarrow> field (st t) ?e ''id'' = Str (step_id env u t d)"
      by auto
    from lt d_not_stored have ne: "?e \<noteq> d" by (metis nth_mem)
    have keys: "distinct (map fst (heap (st t) d))" by (simp add: heap_d d_keys)
    note one = insert_one_existing [OF Some lt ne keys]
    from Some have stale: "\<not> is_fresh env u s (ds @ [d]) ?n" by (simp add: fresh_iff)
    have fd: "fresh_docs env u s (ds @ [d]) = fresh_docs env u s ds"
      by (simp add: fresh_docs_snoc stale)
    have e_where: "?e \<in> set (data (col s)) \<or> ?e \<in> set ds"
      using lt fresh_docs_subset [of env u s ds] nth_mem [OF lt] by (auto simp: i_dat)
    have same: "field (st ?t') r ''id'' = field (st t) r ''id''" if "r \<in> set ds" for r
    proof (cases "r = ?e")
      case True
      with that ex show ?thesis by (simp add: one(9))
    next
      case False
      moreover from that d_new have "r \<noteq> d" by auto
      ultimately show ?thesis using one(10) [of r] by (simp add: field_def)
    qed
    have c1: "u \<longrightarrow> sequence ?t' = length (filter (without_id s) (ds @ [d]))"
      using seq_step by (simp only: one(2))
    have c2: "allIdsWereGenerated ?t' = list_all (without_id s) (ds @ [d])"
      using gen_step by (simp only: one(3))
    have c3: "inserted ?t' = fresh_docs env u s (ds @ [d])"
      by (simp add: one(4) fd i_ins)
    have c4: "data (col (st ?t')) = data (col s) @ fresh_docs env u s (ds @ [d])"
      by (simp add: one(6) fd i_dat)
    have c5: "length (updated ?t') + length (fresh_docs env u s (ds @ [d])) = length (ds @ [d])"
      using i_upd by (simp add: one(5) fd)
    have c6: "\<forall>j<length (ds @ [d]). field (st ?t') ((ds @ [d]) ! j) ''id'' = Str (?A j)"
    proof (intro allI impI)
      fix j assume "j < length (ds @ [d])"
      then consider "j < ?n" | "j = ?n" by fastforce
      then show "field (st ?t') ((ds @ [d]) ! j) ''id'' = Str (?A j)"
      proof cases
        case 1
        then have "ds ! j \<in> set ds" by simp
        from same [OF this] 1 show ?thesis by (simp add: nth_old A_old i_ids)
      next
        case 2
        then show ?thesis by (simp add: one(8) A_new)
      qed
    qed
    have c7: "\<forall>r. r \<notin> set (ds @ [d]) \<and> r \<notin> set (data (col s)) \<longrightarrow> heap (st ?t') r = heap s r"
    proof (intro allI impI)
      fix r assume r: "r \<notin> set (ds @ [d]) \<and> r \<notin> set (data (col s))"
      then have "r \<noteq> d" "r \<notin> set ds" by auto
      moreover from r e_where have "r \<noteq> ?e" by auto
      ultimately show "heap (st ?t') r = heap s r"
        using r one(10) [of r] i_frame [of r] by simp
    qed
    have c8: "\<forall>x. (map_get (idIndex (col (st ?t'))) (Str x) = None) =
            (map_get (idIndex (col s)) (Str x) = None \<and> (\<forall>j<length (ds @ [d]). ?A j \<noteq> x))"
    proof
      fix x
      have "(\<forall>j<length (ds @ [d]). ?A j \<noteq> x) =
            (step_id env u t d \<noteq> x \<and> (\<forall>j<?n. assigned_id env u s ds j \<noteq> x))"
        by (simp add: All_less_Suc A_new A_old)
      then show "(map_get (idIndex (col (st ?t'))) (Str x) = None) =
            (map_get (idIndex (col s)) (Str x) = None \<and> (\<forall>j<length (ds @ [d]). ?A j \<noteq> x))"
        using i_none [of x] Some by (auto simp: one(7))
    qed
    have c9: "\<forall>x i. map_get (idIndex (col (st ?t'))) (Str x) = Some i \<longrightarrow>
            i < length (data (col (st ?t')))
            \<and> (data (col (st ?t')) ! i \<in> set (ds @ [d]) \<longrightarrow>
                 field (st ?t') (data (col (st ?t')) ! i) ''id'' = Str x)"
    proof (intro allI impI)
      fix x k assume g: "map_get (idIndex (col (st ?t'))) (Str x) = Some k"
      then have old: "map_get (idIndex (col (st t))) (Str x) = Some k" by (simp add: one(7))
      from i_some [OF old] have lk: "k < length (data (col (st t)))"
        and exk: "data (col (st t)) ! k \<in> set ds \<longrightarrow> field (st t) (data (col (st t)) ! k) ''id'' = Str x"
        by auto
      from lk d_not_stored have nek: "data (col (st t)) ! k \<noteq> d" by (metis nth_mem)
      have "field (st ?t') (data (col (st t)) ! k) ''id'' = Str x"
        if "data (col (st t)) ! k \<in> set ds"
        using same [OF that] exk that by simp
      with lk nek show "k < length (data (col (st ?t')))
            \<and> (data (col (st ?t')) ! k \<in> set (ds @ [d]) \<longrightarrow>
                 field (st ?t') (data (col (st ?t')) ! k) ''id'' = Str x)"
        by (auto simp: one(6))
    qed
    have "batch_state env u s (ds @ [d]) ?t'"
      unfolding batch_state_def using c1 c2 c3 c4 c5 c6 c7 c8 c9 by (intro conjI)
    moreover have "run_entries (insert_one env u) (ds @ [d]) (batch_start s) = (None, ?t')"
      using one(1) by (simp add: run' prod_eq_iff)
    ultimately show ?thesis by blast
  qed
qed

text \<open>
  C9, as the code has it. Let a list of objects of the caller be inserted, each listed
  once and none of them stored in the collection (objects have distinct property
  names), into a collection whose \<open>idIndex\<close> holds only positions of \<open>data\<close>. Then
  every document has the id that \<open>assigned_id\<close> gives it: its own, as a string, or,
  if it comes without one, the prefix with the number that counts the documents
  without an id up to it (in a list of two or more; the random id in a list of one).
  The fresh documents, those whose id is neither known to \<open>idIndex\<close>
  nor the id of a document before them in the list, are appended to \<open>data\<close> in order.
  The response is a success with the number of the fresh documents as
  \<open>insertedCount\<close>, the number of the others as \<open>updatedCount\<close>, and, if there is a
  fresh document, the list of the ids of the fresh documents if they are at most 20,
  and otherwise the first and the last of these ids, followed by the prefix only if
  every document of the list came without an id.
\<close>

theorem batch_insert_ids_and_report:
  assumes objects: "distinct ds"
    and caller: "list_all (\<lambda>d. d \<notin> set (data (col s)) \<and> distinct (map fst (heap s d))) ds"
    and valid: "list_all (\<lambda>(k, i). i < length (data (col s))) (idIndex (col s))"
  shows "(\<forall>j<length ds. field (snd (insert_op env s (Many ds))) (ds ! j) ''id''
                           = Str (assigned_id env (2 \<le> length ds) s ds j))
       \<and> data (col (snd (insert_op env s (Many ds))))
           = data (col s) @ fresh_docs env (2 \<le> length ds) s ds
       \<and> fst (insert_op env s (Many ds)) =
           Obj [(''success'', Bool True),
                (''data'',
                 Obj ([(''insertedCount'', Num (int (length (fresh_positions env (2 \<le> length ds) s ds)))),
                       (''updatedCount'',
                        Num (int (length ds - length (fresh_positions env (2 \<le> length ds) s ds))))]
                      @ (if fresh_positions env (2 \<le> length ds) s ds = [] then []
                         else if 20 < length (fresh_positions env (2 \<le> length ds) s ds) then
                           [(''firstId'',
                             Str (assigned_id env (2 \<le> length ds) s ds
                                    (hd (fresh_positions env (2 \<le> length ds) s ds)))),
                            (''lastId'',
                             Str (assigned_id env (2 \<le> length ds) s ds
                                    (last (fresh_positions env (2 \<le> length ds) s ds))))]
                           @ (if list_all (without_id s) ds
                              then [(''prefix'', Str (env_prefix env @ ''_''))] else [])
                         else
                           [(''insertedIds'',
                             Arr (map (\<lambda>j. Str (assigned_id env (2 \<le> length ds) s ds j))
                                    (fresh_positions env (2 \<le> length ds) s ds)))]))),
                (''error'', Null)]"
proof -
  let ?u = "2 \<le> length ds"
  let ?fp = "fresh_positions env ?u s ds"
  let ?A = "assigned_id env ?u s ds"
  have v: "\<forall>i \<in> snd ` set (idIndex (col s)). i < length (data (col s))"
    using valid by (auto simp: list_all_iff)
  have c: "\<forall>d \<in> set ds. d \<notin> set (data (col s)) \<and> distinct (map fst (heap s d))"
    using caller by (simp add: list_all_iff)
  from insert_loop_state [OF v objects c, of env ?u] obtain t
    where run: "run_entries (insert_one env ?u) ds (batch_start s) = (None, t)"
      and inv: "batch_state env ?u s ds t" by blast
  from inv have
        i_gen: "allIdsWereGenerated t = list_all (without_id s) ds"
    and i_ins: "inserted t = fresh_docs env ?u s ds"
    and i_dat: "data (col (st t)) = data (col s) @ fresh_docs env ?u s ds"
    and i_upd: "length (updated t) + length (fresh_docs env ?u s ds) = length ds"
    and i_ids: "\<And>j. j < length ds \<Longrightarrow> field (st t) (ds ! j) ''id'' = Str (?A j)"
    unfolding batch_state_def by blast+
  have len: "length (fresh_docs env ?u s ds) = length ?fp" by (simp add: fresh_docs_def)
  have upd: "length (updated t) = length ds - length ?fp" using i_upd len by simp
  have empty: "(fresh_docs env ?u s ds = []) = (?fp = [])" by (simp add: fresh_docs_def)
  have idf: "field (st t) (ds ! j) ''id'' = Str (?A j)" if "j \<in> set ?fp" for j
    using that i_ids fresh_positions_bound by blast
  have all: "map (\<lambda>d. field (st t) d ''id'') (fresh_docs env ?u s ds) = map (\<lambda>j. Str (?A j)) ?fp"
    unfolding fresh_docs_def map_map by (rule map_cong) (simp_all add: idf)
  have first: "field (st t) (hd (fresh_docs env ?u s ds)) ''id'' = Str (?A (hd ?fp))" if "?fp \<noteq> []"
    using that idf [of "hd ?fp"] by (simp add: fresh_docs_def hd_map)
  have final: "field (st t) (last (fresh_docs env ?u s ds)) ''id'' = Str (?A (last ?fp))" if "?fp \<noteq> []"
    using that idf [of "last ?fp"] by (simp add: fresh_docs_def last_map)
  have big: "?u" if "20 < length ?fp"
  proof -
    have "length ?fp \<le> length ds"
      unfolding fresh_positions_def using length_filter_le [of _ "[0..<length ds]"] by simp
    with that show ?thesis by simp
  qed
  have op: "insert_op env s (Many ds) =
      (success (insert_response env ?u t),
       if inserted t \<noteq> [] \<or> updated t \<noteq> []
       then (st t)\<lparr>col := (col (st t))\<lparr>dirty := True\<rparr>\<rparr> else st t)"
    using run by (simp add: insert_op_def batch_start_def)
  have resp: "insert_response env ?u t =
      Obj ([(''insertedCount'', Num (int (length ?fp))),
            (''updatedCount'', Num (int (length ds - length ?fp)))]
           @ (if ?fp = [] then []
              else if 20 < length ?fp then
                [(''firstId'', Str (?A (hd ?fp))), (''lastId'', Str (?A (last ?fp)))]
                @ (if list_all (without_id s) ds
                   then [(''prefix'', Str (env_prefix env @ ''_''))] else [])
              else [(''insertedIds'', Arr (map (\<lambda>j. Str (?A j)) ?fp))]))"
    unfolding insert_response_def i_ins i_gen upd len empty all
    using first final big by auto
  have c1: "\<forall>j<length ds. field (snd (insert_op env s (Many ds))) (ds ! j) ''id'' = Str (?A j)"
    using i_ids by (simp add: op field_def)
  have c2: "data (col (snd (insert_op env s (Many ds)))) = data (col s) @ fresh_docs env ?u s ds"
    by (simp add: op i_dat)
  have c3: "fst (insert_op env s (Many ds)) =
           Obj [(''success'', Bool True),
                (''data'',
                 Obj ([(''insertedCount'', Num (int (length ?fp))),
                       (''updatedCount'', Num (int (length ds - length ?fp)))]
                      @ (if ?fp = [] then []
                         else if 20 < length ?fp then
                           [(''firstId'', Str (?A (hd ?fp))), (''lastId'', Str (?A (last ?fp)))]
                           @ (if list_all (without_id s) ds
                              then [(''prefix'', Str (env_prefix env @ ''_''))] else [])
                         else [(''insertedIds'', Arr (map (\<lambda>j. Str (?A j)) ?fp))]))),
                (''error'', Null)]"
    by (simp only: op resp fst_conv success_def)
  from c1 c2 c3 show ?thesis by (intro conjI)
qed


theorem batch_insert_ids_and_report_witness:
  "fst (insert_op clock mixed_batch (Many [10, 11, 12, 13])) =
     Obj [(''success'', Bool True),
          (''data'', Obj [(''insertedCount'', Num 3), (''updatedCount'', Num 1),
                          (''insertedIds'', Arr [Str ''m5x2k9_1'', Str ''own'', Str ''m5x2k9_2''])]),
          (''error'', Null)]
   \<and> data (col (snd (insert_op clock mixed_batch (Many [10, 11, 12, 13])))) = [0, 10, 12, 13]
   \<and> fst (insert_op clock twenty_one_new_objects (Many [0..<21])) =
       Obj [(''success'', Bool True),
            (''data'', Obj [(''insertedCount'', Num 21), (''updatedCount'', Num 0),
                            (''firstId'', Str ''m5x2k9_1''), (''lastId'', Str ''m5x2k9_21''),
                            (''prefix'', Str ''m5x2k9_'')]),
            (''error'', Null)]"
proof -
  let ?ds = "[10, 11, 12, 13] :: nat list"
  have a1: "distinct ?ds" by simp
  have a2: "list_all (\<lambda>d. d \<notin> set (data (col mixed_batch))
                          \<and> distinct (map fst (heap mixed_batch d))) ?ds" by code_simp
  have a3: "list_all (\<lambda>(k, i). i < length (data (col mixed_batch))) (idIndex (col mixed_batch))"
    by code_simp
  note A = batch_insert_ids_and_report [OF a1 a2 a3, of clock]
  have fp: "fresh_positions clock (2 \<le> length ?ds) mixed_batch ?ds = [0, 2, 3]" by code_simp
  have fd: "fresh_docs clock (2 \<le> length ?ds) mixed_batch ?ds = [10, 12, 13]" by code_simp
  have ids: "map (\<lambda>j. Str (assigned_id clock (2 \<le> length ?ds) mixed_batch ?ds j)) [0, 2, 3]
               = [Str ''m5x2k9_1'', Str ''own'', Str ''m5x2k9_2'']" by code_simp
  have d0: "data (col mixed_batch) = [0]" by code_simp
  have n: "int (length [0::nat, 2, 3]) = 3" "int (length ?ds - length [0::nat, 2, 3]) = 1"
    "([0::nat, 2, 3] = []) = False" "(20 < length [0::nat, 2, 3]) = False" by simp_all
  from A have "fst (insert_op clock mixed_batch (Many ?ds)) =
     Obj [(''success'', Bool True),
          (''data'', Obj [(''insertedCount'', Num 3), (''updatedCount'', Num 1),
                          (''insertedIds'', Arr [Str ''m5x2k9_1'', Str ''own'', Str ''m5x2k9_2''])]),
          (''error'', Null)]"
    by (simp only: fp ids n if_False append.simps)
  moreover from A have "data (col (snd (insert_op clock mixed_batch (Many ?ds)))) = [0, 10, 12, 13]"
    by (simp only: fd d0 append.simps)
  moreover have "fst (insert_op clock twenty_one_new_objects (Many [0..<21])) =
       Obj [(''success'', Bool True),
            (''data'', Obj [(''insertedCount'', Num 21), (''updatedCount'', Num 0),
                            (''firstId'', Str ''m5x2k9_1''), (''lastId'', Str ''m5x2k9_21''),
                            (''prefix'', Str ''m5x2k9_'')]),
            (''error'', Null)]"
  proof -
    let ?es = "[0..<21]"
    have b1: "distinct ?es" by simp
    have b2: "list_all (\<lambda>d. d \<notin> set (data (col twenty_one_new_objects))
                            \<and> distinct (map fst (heap twenty_one_new_objects d))) ?es" by code_simp
    have b3: "list_all (\<lambda>(k, i). i < length (data (col twenty_one_new_objects)))
                (idIndex (col twenty_one_new_objects))" by code_simp
    note B = batch_insert_ids_and_report [OF b1 b2 b3, of clock]
    have gp: "fresh_positions clock (2 \<le> length ?es) twenty_one_new_objects ?es = ?es" by code_simp
    have w: "list_all (without_id twenty_one_new_objects) ?es" by code_simp
    have i1: "assigned_id clock (2 \<le> length ?es) twenty_one_new_objects ?es (hd ?es) = ''m5x2k9_1''"
      by code_simp
    have i21: "assigned_id clock (2 \<le> length ?es) twenty_one_new_objects ?es (last ?es) = ''m5x2k9_21''"
      by code_simp
    have p: "env_prefix clock @ ''_'' = ''m5x2k9_''" by code_simp
    have m: "int (length ?es) = 21" "int (length ?es - length ?es) = 0"
      "(?es = []) = False" "(20 < length ?es) = True" by simp_all
    from B show ?thesis
      by (simp only: gp w i1 i21 p m if_False if_True append.simps)
  qed
  ultimately show ?thesis by (intro conjI)
qed

text \<open>
  C9 as stated fails when a document of the list has an id of its own: of twenty-one
  documents, the first with the id \<open>own\<close>, all are inserted; the response has the
  first and the last id and no prefix, and the last document has the number 20, not
  21: the numbers count the documents without an id.
\<close>

theorem batch_insert_counterexample:
  "fst (insert_op clock batch_of_21 (Many [0..<21])) =
     Obj [(''success'', Bool True),
          (''data'', Obj [(''insertedCount'', Num 21), (''updatedCount'', Num 0),
                          (''firstId'', Str ''own''), (''lastId'', Str ''m5x2k9_20'')]),
          (''error'', Null)]
   \<and> field (snd (insert_op clock batch_of_21 (Many [0..<21]))) 20 ''id'' = Str ''m5x2k9_20''"
  by code_simp

end
